theory Spec2Isabelle
  imports Complex_Main "HOL-Library.Multiset"
begin

section \<open>BHIT: likelihood engine and partition sampler of \<^verbatim>\<open>tf_bhit.ipynb\<close>\<close>

text \<open>
  The notebook builds a TensorFlow graph over \<^verbatim>\<open>float64\<close> tensors and runs a
  Metropolis-Hastings loop in numpy around it. The embedding below follows the notebook
  cell by cell.

  \<^item> A rank-2 tensor is the list of its rows. A tensor with zero rows has lost its column
    count in this representation. The notebook never reads the column count of such a
    tensor: \<^verbatim>\<open>obsNum\<close> is only used inside \<^verbatim>\<open>func1\<close>, which runs on one row, and
    \<^verbatim>\<open>calcProb\<close> passes a discrete tensor on to \<^verbatim>\<open>logLikeDisc\<close> and
    \<^verbatim>\<open>logLikeDepe\<close> only when it has rows. What these two functions return on a
    tensor without rows is therefore not modelled.
  \<^item> \<^verbatim>\<open>float64\<close> values are real numbers: rounding, infinities and NaN are not
    modelled. \<^verbatim>\<open>tf.log\<close> is \<^term>\<open>ln\<close> and \<^verbatim>\<open>PI\<close> is \<^term>\<open>pi\<close>.
  \<^item> \<^verbatim>\<open>tf.lgamma\<close> is a library function that the notebook only calls; every
    function that reaches it takes it as the parameter \<open>lgamma\<close>.
  \<^item> What raises in the notebook is a value of type \<open>error\<close> on the left of a sum.
\<close>

subsection \<open>Errors\<close>

datatype error =
    ValueError         \<comment> \<open>numpy: sample larger than the population\<close>
  | InvalidArgument    \<comment> \<open>TensorFlow: index out of range, string that is no number\<close>
  | NoMoreDraws        \<comment> \<open>the supplied random draws ended while the retry loop was still running\<close>
  | NotADraw           \<comment> \<open>the supplied positions are no outcome of the generator\<close>

definition bindE :: "error + 'a \<Rightarrow> ('a \<Rightarrow> error + 'b) \<Rightarrow> error + 'b" where
  "bindE m f = (case m of Inl e \<Rightarrow> Inl e | Inr v \<Rightarrow> f v)"

fun mapE :: "('a \<Rightarrow> error + 'b) \<Rightarrow> 'a list \<Rightarrow> error + 'b list" where
  "mapE f [] = Inr []"
| "mapE f (x # xs) = bindE (f x) (\<lambda>v. bindE (mapE f xs) (\<lambda>vs. Inr (v # vs)))"

subsection \<open>Run parameters and graph constants\<close>

text \<open>
  \<^verbatim>\<open>init()\<close> returns the data matrix (already transposed: one row per variable) and the
  run parameters. \<^verbatim>\<open>outFileName\<close> is never used by the notebook and is left out.
\<close>

record params =
  dataset :: "real list list"
  iterNum :: nat
  burninNum :: nat
  ObsNum :: nat
  SNPNum :: nat
  PhenoNum :: nat
  MAF :: real

definition TotalNum :: "params \<Rightarrow> nat" where
  "TotalNum ps = SNPNum ps + PhenoNum ps"

definition Odds :: "params \<Rightarrow> real list" where
  "Odds ps = [(1 - MAF ps)\<^sup>2, 2 * MAF ps * (1 - MAF ps), (MAF ps)\<^sup>2]"

definition PhenoData :: "params \<Rightarrow> real list list" where
  "PhenoData ps = drop (SNPNum ps) (take (TotalNum ps) (dataset ps))"

definition ZERO :: real where
  "ZERO = 0"

definition KAPPA0 :: real where
  "KAPPA0 = 1.0"

definition NU0 :: "params \<Rightarrow> real" where
  "NU0 ps = real (PhenoNum ps + 1)"

definition reduce_sum :: "real list \<Rightarrow> real" where
  "reduce_sum xs = sum_list xs"

text \<open>
  The mean of an empty tensor is NaN in TensorFlow; here it is \<open>0 / 0 = 0\<close>. The maximum
  of an empty tensor is the lowest \<^verbatim>\<open>float64\<close>; here it is unspecified. Statements that
  depend on either carry the hypothesis that the tensor is not empty.
\<close>

definition reduce_mean :: "real list \<Rightarrow> real" where
  "reduce_mean xs = sum_list xs / real (length xs)"

definition reduce_max :: "real list \<Rightarrow> real" where
  "reduce_max xs = Max (set xs)"

definition MEANS :: "params \<Rightarrow> real list" where
  "MEANS ps = map reduce_mean (PhenoData ps)"

definition MU0 :: "params \<Rightarrow> real" where
  "MU0 ps = reduce_max (MEANS ps) + 2"

subsection \<open>\<^verbatim>\<open>logLikeCont\<close>\<close>

definition shape1 :: "'a list list \<Rightarrow> nat" where
  "shape1 T = (case T of [] \<Rightarrow> 0 | row # _ \<Rightarrow> length row)"

text \<open>
  \<^verbatim>\<open>func1\<close>: \<^verbatim>\<open>tf.reduce_mean(contTensor)\<close> has no axis, so it is the mean of all
  entries, and \<^verbatim>\<open>contTensor-means\<close> subtracts it from every entry.
\<close>

definition func1 :: "(real \<Rightarrow> real) \<Rightarrow> params \<Rightarrow> real list list \<Rightarrow> real" where
  "func1 lgamma ps contTensor =
    (let obsNum = real (shape1 contTensor);
         means = reduce_mean (concat contTensor);
         sigma = 1.0;
         nuVar = NU0 ps * sigma\<^sup>2;
         nuVar = nuVar + reduce_sum (map (\<lambda>v. (v - means)\<^sup>2) (concat contTensor));
         nuVar = nuVar + KAPPA0 * (obsNum / (KAPPA0 + obsNum) * (means - MU0 ps)\<^sup>2);
         res = (-1 * ln (2 * pi) * obsNum / 2 + ln (KAPPA0 / (KAPPA0 + obsNum)) / 2
                + lgamma ((NU0 ps + obsNum) / 2));
         res = res + (-1 * lgamma (NU0 ps / 2) + ln (NU0 ps * sigma\<^sup>2 / 2) * NU0 ps / 2
                - ln (nuVar / 2) * (NU0 ps + obsNum) / 2)
     in res)"

text \<open>
  \<^verbatim>\<open>func2\<close> (the multivariate formula) is defined inside \<^verbatim>\<open>logLikeCont\<close> but no
  expression refers to it: the conditional's other branch is \<^verbatim>\<open>lambda: ZERO\<close>. It
  therefore has no counterpart here.
\<close>

definition logLikeCont :: "(real \<Rightarrow> real) \<Rightarrow> params \<Rightarrow> real list list \<Rightarrow> real" where
  "logLikeCont lgamma ps contTensor =
    (let varNum = length contTensor
     in if varNum = 1 then func1 lgamma ps contTensor else ZERO)"

subsection \<open>Strings of genotype codes\<close>

text \<open>
  \<^verbatim>\<open>dataset[:SNPNum].astype(np.int32).astype('str')\<close>: the cast to \<^verbatim>\<open>int32\<close>
  truncates towards zero (values outside the \<^verbatim>\<open>int32\<close> range are not modelled), and
  the cast to \<^verbatim>\<open>str\<close> prints the integer in decimal, with a leading \<^verbatim>\<open>-\<close> when
  negative.
\<close>

definition astype_int32 :: "real \<Rightarrow> int" where
  "astype_int32 v = (if 0 \<le> v then \<lfloor>v\<rfloor> else \<lceil>v\<rceil>)"

definition decimal_digits :: string where
  "decimal_digits = ''0123456789''"

definition digit_char :: "nat \<Rightarrow> char" where
  "digit_char d = decimal_digits ! d"

fun str_nat :: "nat \<Rightarrow> string" where
  "str_nat n = (if n < 10 then [digit_char n] else str_nat (n div 10) @ [digit_char (n mod 10)])"

definition str :: "int \<Rightarrow> string" where
  "str i = (if i < 0 then CHR ''-'' # str_nat (nat (- i)) else str_nat (nat i))"

definition GeneData :: "params \<Rightarrow> string list list" where
  "GeneData ps = map (map (\<lambda>v. str (astype_int32 v))) (take (SNPNum ps) (dataset ps))"

text \<open>
  \<^verbatim>\<open>tf.string_to_number(_, out_type=tf.int32)\<close>. Its arguments here are always
  tokens printed from \<^verbatim>\<open>int32\<close> values, or the padding \<^verbatim>\<open>'1'\<close>: an optional
  \<^verbatim>\<open>-\<close> and then decimal digits, within range. The model reads these and rejects
  every other string.
\<close>

fun position_of :: "'a \<Rightarrow> 'a list \<Rightarrow> nat option" where
  "position_of c [] = None"
| "position_of c (x # xs) = (if c = x then Some 0 else map_option Suc (position_of c xs))"

definition digit_val :: "char \<Rightarrow> nat option" where
  "digit_val c = position_of c decimal_digits"

fun parse_digits :: "nat \<Rightarrow> string \<Rightarrow> nat option" where
  "parse_digits acc [] = Some acc"
| "parse_digits acc (c # cs) =
    (case digit_val c of None \<Rightarrow> None | Some d \<Rightarrow> parse_digits (10 * acc + d) cs)"

definition string_to_number :: "string \<Rightarrow> error + int" where
  "string_to_number s =
    (case s of
       [] \<Rightarrow> Inl InvalidArgument
     | c # cs \<Rightarrow>
        if c = CHR ''-'' then
          (if cs = [] then Inl InvalidArgument
           else case parse_digits 0 cs of None \<Rightarrow> Inl InvalidArgument | Some n \<Rightarrow> Inr (- int n))
        else (case parse_digits 0 s of None \<Rightarrow> Inl InvalidArgument | Some n \<Rightarrow> Inr (int n)))"

text \<open>\<^verbatim>\<open>int32\<close> subtraction wraps around.\<close>

definition wrap32 :: "int \<Rightarrow> int" where
  "wrap32 i = (i + 2 ^ 31) mod 2 ^ 32 - 2 ^ 31"

subsection \<open>Tensor operations used by the discrete likelihood\<close>

text \<open>
  \<^verbatim>\<open>tf.reduce_join(T, 0, separator=' ')\<close> joins, for every column, the entries of all rows.
  All tensors of the notebook are cut from one rectangular matrix, so \<open>row ! j\<close> is
  in range.
\<close>

definition columns :: "'a list list \<Rightarrow> 'a list list" where
  "columns T = map (\<lambda>j. map (\<lambda>row. row ! j) T) [0..<shape1 T]"

fun join :: "string \<Rightarrow> string list \<Rightarrow> string" where
  "join sep [] = []"
| "join sep [t] = t"
| "join sep (t # u # ts) = t @ sep @ join sep (u # ts)"

definition reduce_join :: "string list list \<Rightarrow> string list" where
  "reduce_join T = map (join '' '') (columns T)"

text \<open>
  \<^verbatim>\<open>tf.unique\<close> keeps the distinct values in the order of their first occurrence;
  \<^verbatim>\<open>tf.unique_with_counts\<close> also returns how often each occurs (the index output is
  discarded by the notebook).
\<close>

fun unique :: "'a list \<Rightarrow> 'a list" where
  "unique [] = []"
| "unique (x # xs) = x # unique (filter (\<lambda>y. y \<noteq> x) xs)"

definition unique_with_counts :: "'a list \<Rightarrow> 'a list \<times> nat list" where
  "unique_with_counts xs = (unique xs, map (count_list xs) (unique xs))"

text \<open>
  \<^verbatim>\<open>tf.string_split(_, delimiter=' ')\<close> cuts at every delimiter and drops empty tokens;
  \<^verbatim>\<open>tf.sparse_tensor_to_dense\<close> pads every token list to the longest one with the
  default value.
\<close>

fun split_on :: "char \<Rightarrow> string \<Rightarrow> string list" where
  "split_on d [] = [[]]"
| "split_on d (c # cs) =
    (if c = d then [] # split_on d cs
     else (case split_on d cs of [] \<Rightarrow> [[c]] | t # ts \<Rightarrow> (c # t) # ts))"

definition string_split :: "char \<Rightarrow> string \<Rightarrow> string list" where
  "string_split d s = filter (\<lambda>t. t \<noteq> []) (split_on d s)"

definition sparse_tensor_to_dense :: "'a list list \<Rightarrow> 'a \<Rightarrow> 'a list list" where
  "sparse_tensor_to_dense tss default_value =
    (let width = fold max (map length tss) 0
     in map (\<lambda>ts. ts @ replicate (width - length ts) default_value) tss)"

text \<open>
  \<^verbatim>\<open>tf.gather\<close>: an index out of range is an error (the documented behaviour of the CPU
  kernel; the GPU kernel stores 0 instead, which is not modelled).
\<close>

definition gather :: "'a list \<Rightarrow> int \<Rightarrow> error + 'a" where
  "gather ps i = (if 0 \<le> i \<and> nat i < length ps then Inr (ps ! nat i) else Inl InvalidArgument)"

subsection \<open>\<^verbatim>\<open>logLikeDisc\<close>\<close>

text \<open>
  The function is cut in three. First, up to \<^verbatim>\<open>tf.string_to_number(...) - 1\<close>: the
  joined genotype of every column, the distinct ones with their counts \<open>N\<close>, and the
  index matrix \<open>idx\<close>, one row per distinct joined genotype, holding each of its codes
  minus one.
\<close>

definition category_index :: "string list list \<Rightarrow> error + int list list \<times> nat list" where
  "category_index discTensor =
    (let combined_tensor = reduce_join discTensor;
         (unique_tensor, N) = unique_with_counts combined_tensor;
         idx = map (string_split CHR '' '') unique_tensor;
         idx = sparse_tensor_to_dense idx ''1''
     in bindE (mapE (mapE string_to_number) idx) (\<lambda>idx.
        Inr (map (map (\<lambda>i. wrap32 (i - 1))) idx, N)))"

text \<open>
  Then \<^verbatim>\<open>alpha\<close>: the entries of \<^verbatim>\<open>Odds\<close> at \<open>idx\<close>, multiplied along each row,
  in exact arithmetic (the rounded product is \<open>category_alpha_float64\<close> below).
  The rest, from \<^verbatim>\<open>n_plus_alpha\<close> on, is in \<open>logLikeDisc\<close> itself.
\<close>

definition category_alpha :: "params \<Rightarrow> int list list \<Rightarrow> error + real list" where
  "category_alpha ps idx =
    bindE (mapE (mapE (gather (Odds ps))) idx) (\<lambda>alpha. Inr (map prod_list alpha))"

definition logLikeDisc :: "(real \<Rightarrow> real) \<Rightarrow> params \<Rightarrow> string list list \<Rightarrow> error + real" where
  "logLikeDisc lgamma ps discTensor =
    (let logProb = 0
     in bindE (category_index discTensor) (\<lambda>(idx, N).
        bindE (category_alpha ps idx) (\<lambda>alpha.
          let n_plus_alpha = map2 (+) alpha (map real N);
              logProb = logProb
                + reduce_sum (map2 (\<lambda>a b. lgamma a - lgamma b) n_plus_alpha alpha);
              logProb = logProb - lgamma (reduce_sum n_plus_alpha)
          in Inr logProb)))"

subsection \<open>\<^verbatim>\<open>logLikeDepe\<close>\<close>

text \<open>\<^verbatim>\<open>tf.where(tf.equal(xs, v))\<close>: the positions that hold \<open>v\<close>, ascending.\<close>

definition where_equal :: "'a list \<Rightarrow> 'a \<Rightarrow> nat list" where
  "where_equal xs v = filter (\<lambda>j. xs ! j = v) [0..<length xs]"

text \<open>
  \<^verbatim>\<open>select_fn\<close> transposes, gathers the columns whose joined genotype is \<open>elem\<close>,
  transposes back and squeezes: the continuous tensor restricted to those columns.
\<close>

definition logLikeDepe ::
  "(real \<Rightarrow> real) \<Rightarrow> params \<Rightarrow> string list list \<Rightarrow> real list list \<Rightarrow> error + real" where
  "logLikeDepe lgamma ps discTensor contTensor =
    (let combined_tensor = reduce_join discTensor;
         unique_tensor = unique combined_tensor;
         select_fn = (\<lambda>elem.
            let selected = map (\<lambda>row. map (\<lambda>j. row ! j) (where_equal combined_tensor elem))
                               contTensor
            in logLikeCont lgamma ps selected);
         logProb = map select_fn unique_tensor;
         logProb = reduce_sum logProb
     in bindE (logLikeDisc lgamma ps discTensor) (\<lambda>d. Inr (logProb + d)))"

subsection \<open>\<^verbatim>\<open>calcProb\<close>\<close>

text \<open>
  \<^verbatim>\<open>tf.case\<close> with \<^verbatim>\<open>exclusive=False\<close> over an ordered dictionary takes the first
  predicate that holds, and the default when none does. \<^verbatim>\<open>shape[0]\<close> is the number of rows.
\<close>

definition calcProb ::
  "(real \<Rightarrow> real) \<Rightarrow> params \<Rightarrow> string list list \<Rightarrow> real list list \<Rightarrow> error + real" where
  "calcProb lgamma ps tensor1 tensor2 =
    (if length tensor1 > 0 \<and> length tensor2 > 0 then logLikeDepe lgamma ps tensor1 tensor2
     else if length tensor1 > 0 then logLikeDisc lgamma ps tensor1
     else if length tensor2 > 0 then Inr (logLikeCont lgamma ps tensor2)
     else Inr ZERO)"

subsection \<open>The graph: scores of the two labels and the acceptance test\<close>

text \<open>
  \<^verbatim>\<open>tf.squeeze(tf.gather(data, tf.where(tf.equal(index, var))), [1])\<close>: the rows of
  \<open>data\<close> at the positions where \<open>index\<close> holds \<open>var\<close>.
\<close>

definition select_rows :: "'a list list \<Rightarrow> int list \<Rightarrow> int \<Rightarrow> error + 'a list list" where
  "select_rows data index var = mapE (\<lambda>i. gather data (int i)) (where_equal index var)"

text \<open>
  \<^verbatim>\<open>pX\<close> for \<open>index = index1\<close> and \<^verbatim>\<open>pY\<close> for \<open>index = index2\<close>: the sum
  of \<^verbatim>\<open>calcProb\<close> over the variables bearing \<open>var1\<close> and over those bearing \<open>var2\<close>.
\<close>

definition score :: "(real \<Rightarrow> real) \<Rightarrow> params \<Rightarrow> int list \<Rightarrow> int \<Rightarrow> int \<Rightarrow> error + real" where
  "score lgamma ps index var1 var2 =
    (let D = take (SNPNum ps) index;
         C = drop (SNPNum ps) (take (TotalNum ps) index)
     in bindE (select_rows (GeneData ps) D var1) (\<lambda>D1.
        bindE (select_rows (PhenoData ps) C var1) (\<lambda>C1.
        bindE (select_rows (GeneData ps) D var2) (\<lambda>D2.
        bindE (select_rows (PhenoData ps) C var2) (\<lambda>C2.
        bindE (calcProb lgamma ps D1 C1) (\<lambda>p1.
        bindE (calcProb lgamma ps D2 C2) (\<lambda>p2.
        Inr (0 + p1 + p2))))))))"

text \<open>
  \<^verbatim>\<open>tf.random_uniform\<close> draws from \<open>[0, 1)\<close>; \<^verbatim>\<open>tf.log(0)\<close> is \<open>-inf\<close>, which is
  below every score difference.
\<close>

definition accept :: "real \<Rightarrow> real \<Rightarrow> real \<Rightarrow> bool" where
  "accept u pX pY = (if u = 0 then True else ln u \<le> min ZERO (pY - pX))"

definition sess_run ::
  "(real \<Rightarrow> real) \<Rightarrow> params \<Rightarrow> real \<Rightarrow> int list \<Rightarrow> int list \<Rightarrow> int \<Rightarrow> int \<Rightarrow> error + int list" where
  "sess_run lgamma ps u index1 index2 var1 var2 =
    bindE (score lgamma ps index1 var1 var2) (\<lambda>pX.
    bindE (score lgamma ps index2 var1 var2) (\<lambda>pY.
    Inr (if accept u pX pY then index2 else index1)))"

subsection \<open>The sampler loop\<close>

text \<open>
  The generators' outcomes are inputs. One pass of the retry loop reads one \<open>draw\<close>: the
  two positions that \<^verbatim>\<open>np.random.choice(Ix, 2, False)\<close> picked (distinct, since the
  sample is without replacement), and a number that decides \<^verbatim>\<open>np.random.choice(k, 1)\<close>
  when it is called (it is reduced modulo the number of candidates). One iteration reads a
  list of draws for its retry loop and the uniform number \<open>unif\<close> of the graph.
\<close>

record draw =
  pos1 :: nat
  pos2 :: nat
  pick :: nat

record round =
  draws :: "draw list"
  unif :: real

definition arange :: "nat \<Rightarrow> int list" where
  "arange n = map int [0..<n]"

definition choice2 :: "int list \<Rightarrow> nat \<Rightarrow> nat \<Rightarrow> error + int list" where
  "choice2 a p q =
    (if length a < 2 then Inl ValueError
     else if p < length a \<and> q < length a \<and> p \<noteq> q then Inr [a ! p, a ! q]
     else Inl NotADraw)"

definition draw_xy :: "int list \<Rightarrow> nat \<Rightarrow> nat \<Rightarrow> error + int \<times> int" where
  "draw_xy Ix p q = bindE (choice2 Ix p q) (\<lambda>c. let s = sort c in Inr (s ! 0, s ! 1))"

text \<open>The sample space of \<^verbatim>\<open>np.random.choice(Ix, 2, False)\<close>: every ordered pair of
  distinct positions, each as likely as any other.\<close>

definition position_pairs :: "nat \<Rightarrow> (nat \<times> nat) list" where
  "position_pairs n = filter (\<lambda>(p, q). p \<noteq> q) (List.product [0..<n] [0..<n])"

text \<open>One pass of the body of \<^verbatim>\<open>while True\<close>, up to the test.\<close>

definition attempt :: "int list \<Rightarrow> draw \<Rightarrow> error + int \<times> int \<times> int list" where
  "attempt Ix d =
    bindE (draw_xy Ix (pos1 d) (pos2 d)) (\<lambda>(x, y).
      let k = where_equal Ix x;
          k = (if length k > 1 then [k ! (pick d mod length k)] else k);
          Iy = Ix;
          Iy = fold (\<lambda>i I. I[i := y]) k Iy
      in Inr (x, y, Iy))"

fun retry_loop :: "int list \<Rightarrow> draw list \<Rightarrow> error + int \<times> int \<times> int list" where
  "retry_loop Ix [] = Inl NoMoreDraws"
| "retry_loop Ix (d # ds) =
    bindE (attempt Ix d) (\<lambda>(x, y, Iy).
      let tmp1 = where_equal Ix x;
          tmp2 = where_equal Iy y
      in if length tmp1 \<noteq> 1 \<or> length tmp2 \<noteq> 1 then Inr (x, y, Iy) else retry_loop Ix ds)"

definition iteration :: "(real \<Rightarrow> real) \<Rightarrow> params \<Rightarrow> int list \<Rightarrow> round \<Rightarrow> error + int list" where
  "iteration lgamma ps Ix rd =
    bindE (retry_loop Ix (draws rd)) (\<lambda>(x, y, Iy). sess_run lgamma ps (unif rd) Ix Iy x y)"

fun sampler_loop :: "(real \<Rightarrow> real) \<Rightarrow> params \<Rightarrow> int list \<Rightarrow> round list \<Rightarrow> error + int list" where
  "sampler_loop lgamma ps Ix [] = Inr Ix"
| "sampler_loop lgamma ps Ix (rd # rds) =
    bindE (iteration lgamma ps Ix rd) (\<lambda>Ix'. sampler_loop lgamma ps Ix' rds)"

text \<open>The session cell: \<^verbatim>\<open>iterNum\<close> iterations from \<^verbatim>\<open>np.arange(TotalNum)\<close>.\<close>

definition run :: "(real \<Rightarrow> real) \<Rightarrow> params \<Rightarrow> round list \<Rightarrow> error + int list" where
  "run lgamma ps rounds =
    (if length rounds < iterNum ps then Inl NoMoreDraws
     else sampler_loop lgamma ps (arange (TotalNum ps)) (take (iterNum ps) rounds))"

subsection \<open>A small data set\<close>

text \<open>Two variants and one trait, observed twice; used to evaluate the functions above.\<close>

definition small :: params where
  "small = \<lparr>dataset = [[1, 2], [2, 2], [0, 4]], iterNum = 1, burninNum = 0, ObsNum = 2,
             SNPNum = 2, PhenoNum = 1, MAF = 1 / 2\<rparr>"

subsection \<open>The float64 rounding of the products\<close>

text \<open>
  \<^term>\<open>category_alpha\<close> multiplies real numbers, so its product does not depend on the
  order of the factors. The notebook multiplies float64 numbers and rounds after every
  multiplication, so its product can. The definitions of this subsection repeat the step
  with that rounding (overflow and subnormal numbers are not modelled, and the numbers
  here are far from both).
\<close>









subsection \<open>The discrete likelihood in the words of claim C4\<close>

text \<open>
  Claim C4 indexes the genotype odds by the genotype code itself. These two definitions
  follow that wording, for comparison with \<^verbatim>\<open>logLikeDisc\<close>; the rows are given as
  integer codes.
\<close>

definition alpha_as_claimed :: "params \<Rightarrow> int list \<Rightarrow> real" where
  "alpha_as_claimed ps c = (\<Prod>code\<leftarrow>c. Odds ps ! nat code)"

definition logLikeDisc_as_claimed :: "(real \<Rightarrow> real) \<Rightarrow> params \<Rightarrow> int list list \<Rightarrow> real" where
  "logLikeDisc_as_claimed lgamma ps rows =
    (let cols = columns rows;
         n = (\<lambda>c. real (count_list cols c));
         alpha = alpha_as_claimed ps
     in (\<Sum>c \<in> set cols. lgamma (n c + alpha c) - lgamma (alpha c))
        - lgamma (\<Sum>c \<in> set cols. n c + alpha c))"

section \<open>The continuous likelihood and the dispatch\<close>

text \<open>
  Claim C1. A continuous selection of two or more rows has log-likelihood exactly 0,
  whatever the data, and so has a selection of no rows; \<^verbatim>\<open>calcProb\<close> passes both on
  unchanged when the discrete selection is empty.
\<close>

theorem logLikeCont_zero_unless_one_row:
  "logLikeCont lgamma ps [] = 0
   \<and> logLikeCont lgamma ps (r1 # r2 # rs) = 0
   \<and> calcProb lgamma ps [] [] = Inr 0
   \<and> calcProb lgamma ps [] (r1 # r2 # rs) = Inr 0"
  by (simp add: logLikeCont_def calcProb_def ZERO_def)

text \<open>
  Claim C2. \<^verbatim>\<open>calcProb\<close> dispatches on which of its two selections have rows: both,
  \<^verbatim>\<open>logLikeDepe\<close>; only the discrete one, \<^verbatim>\<open>logLikeDisc\<close>; only the continuous one,
  \<^verbatim>\<open>logLikeCont\<close>; neither, 0 for every data set.
\<close>

theorem calcProb_dispatch:
  "calcProb lgamma ps (d # ds) (c # cs) = logLikeDepe lgamma ps (d # ds) (c # cs)
   \<and> calcProb lgamma ps (d # ds) [] = logLikeDisc lgamma ps (d # ds)
   \<and> calcProb lgamma ps [] (c # cs) = Inr (logLikeCont lgamma ps (c # cs))
   \<and> calcProb lgamma ps [] [] = Inr 0"
  by (simp add: calcProb_def ZERO_def)

text \<open>
  Claim C7. On a single row of \<open>n\<close> values \<^verbatim>\<open>logLikeCont\<close> is the Normal-Inverse-Gamma
  log marginal likelihood with \<open>kappa0 = 1\<close>, \<open>sigma0 = 1\<close>, \<open>nu0\<close> the number of traits
  plus one and \<open>mu0\<close> the largest per-trait mean plus two.
\<close>

theorem logLikeCont_single_row:
  assumes "row \<noteq> []" and "PhenoData ps \<noteq> []" and "\<forall>r \<in> set (PhenoData ps). r \<noteq> []"
  shows "logLikeCont lgamma ps [row] =
   (let n = real (length row); ybar = sum_list row / n;
        kappa0 = 1; sigma0 = 1; nu0 = real (PhenoNum ps) + 1;
        mu0 = Max (set (map (\<lambda>r. sum_list r / real (length r)) (PhenoData ps))) + 2;
        nuVar = nu0 * sigma0\<^sup>2 + (\<Sum>v\<leftarrow>row. (v - ybar)\<^sup>2)
                + kappa0 * (n / (kappa0 + n)) * (ybar - mu0)\<^sup>2
    in - n / 2 * ln (2 * pi) + 1 / 2 * ln (kappa0 / (kappa0 + n))
       + lgamma ((nu0 + n) / 2) - lgamma (nu0 / 2)
       + (nu0 / 2) * ln (nu0 * sigma0\<^sup>2 / 2) - ((nu0 + n) / 2) * ln (nuVar / 2))"
proof -
  have mu: "MU0 ps = Max (set (map (\<lambda>r. sum_list r / real (length r)) (PhenoData ps))) + 2"
    by (simp add: MU0_def MEANS_def reduce_max_def reduce_mean_def)
  show ?thesis
    unfolding logLikeCont_def func1_def Let_def mu
    by (simp add: shape1_def reduce_mean_def reduce_sum_def KAPPA0_def NU0_def algebra_simps)
qed

theorem logLikeCont_single_row_witness:
  "[0, 4] \<noteq> ([] :: real list) \<and> PhenoData small = [[0, 4]]
   \<and> logLikeCont (\<lambda>v. 0) small [[0, 4]]
       = - ln (2 * pi) + 1 / 2 * ln (1 / 3) - 2 * ln ((38 / 3) / 2)"
  using logLikeCont_single_row [of "[0, 4]" small "\<lambda>v. 0"]
  by (simp add: small_def PhenoData_def TotalNum_def Let_def)

section \<open>The error monad and the printing of integers\<close>

lemma bindE_Inr [simp]: "bindE (Inr v) f = f v"
  by (simp add: bindE_def)

lemma bindE_Inl [simp]: "bindE (Inl e) f = Inl e"
  by (simp add: bindE_def)

lemma mapE_all_Inr: "\<forall>x \<in> set xs. f x = Inr (g x) \<Longrightarrow> mapE f xs = Inr (map g xs)"
  by (induction xs) simp_all

lemma digit_val_digit_char: "n < 10 \<Longrightarrow> digit_val (digit_char n) = Some n"
proof -
  assume "n < 10"
  then have "n \<in> {0, 1, 2, 3, 4, 5, 6, 7, 8, 9}" by auto
  then show ?thesis
    by (auto simp: digit_val_def digit_char_def decimal_digits_def)
qed

lemma digit_char_in: "n < 10 \<Longrightarrow> digit_char n \<in> set decimal_digits"
  unfolding digit_char_def by (rule nth_mem) (simp add: decimal_digits_def)

lemma parse_digits_snoc:
  "parse_digits acc (s @ [c]) =
    (case parse_digits acc s of None \<Rightarrow> None
     | Some a \<Rightarrow> (case digit_val c of None \<Rightarrow> None | Some d \<Rightarrow> Some (10 * a + d)))"
  by (induction s arbitrary: acc) (auto split: option.splits)

lemma parse_digits_str_nat: "parse_digits 0 (str_nat n) = Some n"
proof (induction n rule: str_nat.induct)
  case (1 n)
  show ?case
  proof (cases "n < 10")
    case True
    then show ?thesis by (simp add: digit_val_digit_char)
  next
    case False
    with 1 have "parse_digits 0 (str_nat (n div 10)) = Some (n div 10)" by simp
    moreover have "str_nat n = str_nat (n div 10) @ [digit_char (n mod 10)]"
      using False by (subst str_nat.simps) simp
    ultimately show ?thesis
      by (simp add: parse_digits_snoc digit_val_digit_char del: str_nat.simps)
  qed
qed

lemma str_nat_digits: "set (str_nat n) \<subseteq> set decimal_digits"
proof (induction n rule: str_nat.induct)
  case (1 n)
  show ?case
  proof (cases "n < 10")
    case True
    then show ?thesis using digit_char_in [of n] by simp
  next
    case False
    then have "str_nat n = str_nat (n div 10) @ [digit_char (n mod 10)]"
      by (subst str_nat.simps) simp
    with 1 False digit_char_in [of "n mod 10"] show ?thesis
      by (simp del: str_nat.simps)
  qed
qed

lemma str_nat_not_Nil: "str_nat n \<noteq> []"
  by (subst str_nat.simps) simp

lemma string_to_number_str: "string_to_number (str i) = Inr i"
proof (cases "i < 0")
  case True
  then show ?thesis
    by (simp add: string_to_number_def str_def str_nat_not_Nil parse_digits_str_nat
        del: str_nat.simps)
next
  case False
  obtain c cs where s: "str_nat (nat i) = c # cs"
    using str_nat_not_Nil [of "nat i"] by (cases "str_nat (nat i)") auto
  have "c \<in> set decimal_digits" using str_nat_digits [of "nat i"] s by auto
  then have "c \<noteq> CHR ''-''" by (auto simp: decimal_digits_def)
  moreover have "parse_digits 0 (c # cs) = Some (nat i)"
    using parse_digits_str_nat [of "nat i"] s by simp
  ultimately show ?thesis using False s
    by (simp add: string_to_number_def str_def del: str_nat.simps parse_digits.simps)
qed

lemma str_no_space: "CHR '' '' \<notin> set (str i)"
  using str_nat_digits [of "nat i"] str_nat_digits [of "nat (- i)"]
  by (auto simp: str_def decimal_digits_def simp del: str_nat.simps)

lemma str_not_Nil: "str i \<noteq> []"
  by (simp add: str_def str_nat_not_Nil del: str_nat.simps)

section \<open>Splitting, joining and distinct values\<close>

lemma split_on_token: "d \<notin> set t \<Longrightarrow> split_on d t = [t]"
  by (induction t) auto

lemma split_on_append: "d \<notin> set t \<Longrightarrow> split_on d (t @ d # s) = t # split_on d s"
  by (induction t) (auto split: list.splits)

lemma split_on_join:
  "ts \<noteq> [] \<Longrightarrow> \<forall>t \<in> set ts. d \<notin> set t \<Longrightarrow> split_on d (join [d] ts) = ts"
proof (induction "[d]" ts rule: join.induct)
  case 1
  then show ?case by simp
next
  case (2 t)
  then show ?case by (simp add: split_on_token)
next
  case (3 t u ts)
  then show ?case by (simp add: split_on_append)
qed

lemma string_split_join:
  assumes "ts \<noteq> []" and "\<forall>t \<in> set ts. t \<noteq> [] \<and> d \<notin> set t"
  shows "string_split d (join [d] ts) = ts"
proof -
  have "split_on d (join [d] ts) = ts" using assms by (simp add: split_on_join)
  moreover have "filter (\<lambda>t. t \<noteq> []) ts = ts" using assms by (simp add: filter_id_conv)
  ultimately show ?thesis by (simp add: string_split_def)
qed

lemma string_split_join_str:
  "c \<noteq> [] \<Longrightarrow> string_split CHR '' '' (join '' '' (map str c)) = map str c"
  by (rule string_split_join) (auto simp: str_no_space str_not_Nil)

lemma inj_str: "inj str"
proof (rule injI)
  fix i j assume "str i = str j"
  then have "string_to_number (str i) = string_to_number (str j)" by simp
  then show "i = j" by (simp add: string_to_number_str)
qed

lemma join_str_inj:
  assumes "c \<noteq> []" "c' \<noteq> []" "join '' '' (map str c) = join '' '' (map str c')"
  shows "c = c'"
proof -
  have "map str c = string_split CHR '' '' (join '' '' (map str c))"
    by (simp only: string_split_join_str [OF assms(1)])
  also have "\<dots> = string_split CHR '' '' (join '' '' (map str c'))"
    by (simp only: assms(3))
  also have "\<dots> = map str c'"
    by (simp only: string_split_join_str [OF assms(2)])
  finally have "map str c = map str c'" .
  then show ?thesis using inj_str by (simp add: inj_map_eq_map)
qed

subsection \<open>Distinct values in order of first occurrence\<close>

lemma set_unique [simp]: "set (unique xs) = set xs"
  by (induction xs rule: unique.induct) auto

lemma distinct_unique [simp]: "distinct (unique xs)"
  by (induction xs rule: unique.induct) auto

lemma unique_map:
  "inj_on f (set xs) \<Longrightarrow> unique (map f xs) = map f (unique xs)"
proof (induction xs rule: unique.induct)
  case 1
  then show ?case by simp
next
  case (2 x xs)
  have "\<And>y. y \<in> set xs \<Longrightarrow> (f y \<noteq> f x) = (y \<noteq> x)"
    using "2.prems" by (auto simp: inj_on_def)
  then have "filter (\<lambda>y. f y \<noteq> f x) xs = filter (\<lambda>y. y \<noteq> x) xs"
    by (intro filter_cong) auto
  then have f: "filter (\<lambda>y. y \<noteq> f x) (map f xs) = map f (filter (\<lambda>y. y \<noteq> x) xs)"
    by (simp add: filter_map comp_def)
  have "inj_on f (set (filter (\<lambda>y. y \<noteq> x) xs))"
    using "2.prems" by (auto simp: inj_on_def)
  with 2 f show ?case by simp
qed

section \<open>The discrete likelihood\<close>

lemma mapE_map: "mapE f (map g xs) = mapE (\<lambda>x. f (g x)) xs"
  by (induction xs) simp_all

lemma mapE_total:
  assumes "\<And>x. f x = (if ok x then Inr (g x) else Inl e)"
  shows "mapE f xs = (if \<forall>x \<in> set xs. ok x then Inr (map g xs) else Inl e)"
  by (induction xs) (simp_all add: assms)

lemma shape1_rect: "rows \<noteq> [] \<Longrightarrow> \<forall>r \<in> set rows. length r = m \<Longrightarrow> shape1 rows = m"
  by (cases rows) (simp_all add: shape1_def)

lemma columns_map:
  assumes "\<forall>r \<in> set rows. length r = m"
  shows "columns (map (map f) rows) = map (map f) (columns rows)"
proof (cases "rows = []")
  case True
  then show ?thesis by (simp add: columns_def shape1_def)
next
  case False
  have s: "shape1 (map (map f) rows) = m" "shape1 rows = m"
    using False assms by (simp_all add: shape1_rect)
  have "\<And>j. j < m \<Longrightarrow> map (\<lambda>row. row ! j) (map (map f) rows) = map f (map (\<lambda>row. row ! j) rows)"
    using assms by simp
  then show ?thesis
    unfolding columns_def s by simp
qed


lemma column_length: "c \<in> set (columns rows) \<Longrightarrow> length c = length rows"
  by (auto simp: columns_def)

lemma fold_max_le: "\<forall>x \<in> set xs. x \<le> k \<Longrightarrow> a \<le> k \<Longrightarrow> fold max xs a \<le> (k :: nat)"
  by (induction xs arbitrary: a) simp_all

lemma sparse_tensor_to_dense_rect:
  assumes "\<forall>ts \<in> set tss. length ts = k"
  shows "sparse_tensor_to_dense tss d = tss"
proof -
  have "fold max (map length tss) 0 \<le> k"
    by (rule fold_max_le) (use assms in auto)
  then have "\<And>ts. ts \<in> set tss \<Longrightarrow> fold max (map length tss) 0 - length ts = 0"
    using assms by simp
  then show ?thesis
    by (simp add: sparse_tensor_to_dense_def Let_def map_idI)
qed

lemma mapE_string_to_number_str: "mapE string_to_number (map str c) = Inr c"
  by (simp add: mapE_map string_to_number_str mapE_all_Inr [where g = "\<lambda>x. x"])

lemma category_index_str:
  assumes ne: "rows \<noteq> []" and rect: "\<forall>r \<in> set rows. length r = m"
  shows "category_index (map (map str) rows) =
    Inr (map (map (\<lambda>c. wrap32 (c - 1))) (unique (columns rows)),
         map (count_list (columns rows)) (unique (columns rows)))"
proof -
  define cols where "cols = columns rows"
  define J where "J = (\<lambda>c. join '' '' (map str c))"
  have col_ne: "c \<noteq> []" if "c \<in> set cols" for c
    using that ne column_length [of c rows] by (auto simp: cols_def)
  have inj: "inj_on J (set cols)"
  proof (rule inj_onI)
    fix a b assume "a \<in> set cols" "b \<in> set cols" "J a = J b"
    then show "a = b"
      using join_str_inj [of a b] col_ne by (simp add: J_def)
  qed
  have rj: "reduce_join (map (map str) rows) = map J cols"
    by (simp add: reduce_join_def columns_map [OF rect] cols_def J_def)
  have u: "unique (map J cols) = map J (unique cols)"
    by (rule unique_map [OF inj])
  have cnt: "map (count_list (map J cols)) (map J (unique cols)) = map (count_list cols) (unique cols)"
    using inj by (simp add: count_list_inj_map)
  have sp: "map (string_split CHR '' '') (map J (unique cols)) = map (map str) (unique cols)"
    using col_ne by (simp add: J_def string_split_join_str)
  have dense: "sparse_tensor_to_dense (map (map str) (unique cols)) ''1'' = map (map str) (unique cols)"
    by (rule sparse_tensor_to_dense_rect [where k = "length rows"])
       (auto simp: cols_def column_length)
  have "mapE (\<lambda>c. mapE string_to_number (map str c)) (unique cols) = Inr (map (\<lambda>c. c) (unique cols))"
    by (rule mapE_all_Inr) (simp add: mapE_string_to_number_str)
  then have num: "mapE (mapE string_to_number) (map (map str) (unique cols)) = Inr (unique cols)"
    by (simp add: mapE_map)
  show ?thesis
    unfolding category_index_def rj unique_with_counts_def Let_def u cnt split sp dense num
    by (simp add: cols_def)
qed

lemma gather_Odds:
  "gather (Odds ps) i = (if 0 \<le> i \<and> i < 3 then Inr (Odds ps ! nat i) else Inl InvalidArgument)"
  by (auto simp: gather_def Odds_def)

lemma category_alpha_total:
  "category_alpha ps idx =
    (if \<forall>row \<in> set idx. \<forall>i \<in> set row. 0 \<le> i \<and> i < 3
     then Inr (map (\<lambda>row. prod_list (map (\<lambda>i. Odds ps ! nat i) row)) idx)
     else Inl InvalidArgument)"
proof -
  have row: "mapE (gather (Odds ps)) row =
      (if \<forall>i \<in> set row. 0 \<le> i \<and> i < 3 then Inr (map (\<lambda>i. Odds ps ! nat i) row)
       else Inl InvalidArgument)" for row
    by (rule mapE_total) (rule gather_Odds)
  have "mapE (mapE (gather (Odds ps))) idx =
      (if \<forall>row \<in> set idx. \<forall>i \<in> set row. 0 \<le> i \<and> i < 3
       then Inr (map (map (\<lambda>i. Odds ps ! nat i)) idx) else Inl InvalidArgument)"
    by (rule mapE_total) (rule row)
  then show ?thesis
    by (simp add: category_alpha_def comp_def)
qed

lemma map2_map_map: "map2 f (map g xs) (map h xs) = map (\<lambda>x. f (g x) (h x)) xs"
  by (induction xs) simp_all

lemma logLikeDisc_str:
  assumes "rows \<noteq> []" and "\<forall>r \<in> set rows. length r = m"
  shows "logLikeDisc lgamma ps (map (map str) rows) =
    bindE (category_alpha ps (map (map (\<lambda>c. wrap32 (c - 1))) (unique (columns rows))))
      (\<lambda>alpha. Inr (sum_list (map2 (\<lambda>a b. lgamma a - lgamma b)
                         (map2 (+) alpha (map real (map (count_list (columns rows)) (unique (columns rows)))))
                         alpha)
                   - lgamma (sum_list (map2 (+) alpha
                         (map real (map (count_list (columns rows)) (unique (columns rows))))))))"
  by (simp add: logLikeDisc_def category_index_str [OF assms] Let_def reduce_sum_def)

lemma column_codes:
  assumes "\<forall>r \<in> set rows. length r = m" and "c \<in> set (columns rows)" and "v \<in> set c"
  shows "\<exists>r \<in> set rows. v \<in> set r"
proof -
  have "rows \<noteq> []" using assms(2) by (auto simp: columns_def shape1_def)
  then have "shape1 rows = m" using assms(1) by (rule shape1_rect)
  with assms(2) obtain j where "j < m" "c = map (\<lambda>row. row ! j) rows"
    by (auto simp: columns_def)
  with assms(3) obtain r where r: "r \<in> set rows" "v = r ! j" by auto
  with assms(1) \<open>j < m\<close> have "v \<in> set r" by simp
  with r show ?thesis by blast
qed

lemma Odds_small: "Odds small = [1 / 4, 1 / 2, 1 / 4]"
  by (simp add: Odds_def small_def power2_eq_square)

lemma columns_2x2: "columns [[a, b], [c, d]] = [[a, c], [b, d]]"
  by (simp add: columns_def shape1_def upt_rec)

text \<open>The value in the order in which \<^verbatim>\<open>tf.unique_with_counts\<close> lists the genotypes.\<close>

lemma logLikeDisc_codes:
  assumes ne: "rows \<noteq> []" and rect: "\<forall>r \<in> set rows. length r = m"
    and codes: "\<forall>r \<in> set rows. \<forall>c \<in> set r. c \<in> {1, 2, 3}"
  shows "logLikeDisc lgamma ps (map (map str) rows) =
    Inr (sum_list (map (\<lambda>c. lgamma ((\<Prod>code\<leftarrow>c. Odds ps ! nat (code - 1))
                                     + real (count_list (columns rows) c))
                             - lgamma (\<Prod>code\<leftarrow>c. Odds ps ! nat (code - 1)))
                       (unique (columns rows)))
         - lgamma (sum_list (map (\<lambda>c. (\<Prod>code\<leftarrow>c. Odds ps ! nat (code - 1))
                                       + real (count_list (columns rows) c))
                                 (unique (columns rows)))))"
proof -
  define cols where "cols = columns rows"
  define alpha where "alpha = (\<lambda>c. \<Prod>code\<leftarrow>c. Odds ps ! nat (code - 1))"
  have in_codes: "v \<in> {1, 2, 3}" if "c \<in> set cols" "v \<in> set c" for c v
    using column_codes [OF rect, of c v] that codes by (auto simp: cols_def)
  have w: "wrap32 (v - 1) = v - 1" if "c \<in> set cols" "v \<in> set c" for c v
    using in_codes [OF that] by (auto simp: wrap32_def)
  have ok: "\<forall>row \<in> set (map (map (\<lambda>c. wrap32 (c - 1))) (unique cols)).
             \<forall>i \<in> set row. 0 \<le> i \<and> i < 3"
    using in_codes w by fastforce
  have al: "map (\<lambda>row. prod_list (map (\<lambda>i. Odds ps ! nat i) row))
              (map (map (\<lambda>c. wrap32 (c - 1))) (unique cols)) = map alpha (unique cols)"
    using w by (auto simp: alpha_def comp_def intro!: arg_cong [where f = prod_list])
  have ca: "category_alpha ps (map (map (\<lambda>c. wrap32 (c - 1))) (unique cols))
            = Inr (map alpha (unique cols))"
    unfolding category_alpha_total using ok al by simp
  show ?thesis
    unfolding logLikeDisc_str [OF ne rect] cols_def [symmetric] ca
    by (simp add: map2_map_map comp_def alpha_def)
qed

text \<open>
  Claim C4, amended. On a non-empty rectangular selection whose codes are 1, 2 or 3,
  \<^verbatim>\<open>logLikeDisc\<close> is the Dirichlet-multinomial sum over the distinct joined genotypes
  \<open>c\<close> that occur, with \<open>n c\<close> the number of columns showing \<open>c\<close> and \<open>alpha c\<close> the
  product over the selected rows of the genotype odds at the row's code minus one.
\<close>

theorem logLikeDisc_dirichlet:
  assumes ne: "rows \<noteq> []" and rect: "\<forall>r \<in> set rows. length r = m"
    and codes: "\<forall>r \<in> set rows. \<forall>c \<in> set r. c \<in> {1, 2, 3}"
  shows "logLikeDisc lgamma ps (map (map str) rows) =
    (let cols = columns rows;
         n = (\<lambda>c. real (count_list cols c));
         alpha = (\<lambda>c. \<Prod>code\<leftarrow>c. Odds ps ! nat (code - 1))
     in Inr ((\<Sum>c \<in> set cols. lgamma (n c + alpha c) - lgamma (alpha c))
             - lgamma (\<Sum>c \<in> set cols. n c + alpha c)))"
proof -
  define cols where "cols = columns rows"
  define alpha where "alpha = (\<lambda>c. \<Prod>code\<leftarrow>c. Odds ps ! nat (code - 1))"
  define n where "n = (\<lambda>c. real (count_list cols c))"
  have s1: "sum_list (map (\<lambda>c. lgamma (alpha c + n c) - lgamma (alpha c)) (unique cols))
            = (\<Sum>c \<in> set cols. lgamma (n c + alpha c) - lgamma (alpha c))"
    by (simp add: sum_list_distinct_conv_sum_set add.commute)
  have s2: "sum_list (map (\<lambda>c. alpha c + n c) (unique cols)) = (\<Sum>c \<in> set cols. n c + alpha c)"
    by (simp add: sum_list_distinct_conv_sum_set add.commute)
  have "logLikeDisc lgamma ps (map (map str) rows) =
      Inr (sum_list (map (\<lambda>c. lgamma (alpha c + n c) - lgamma (alpha c)) (unique cols))
           - lgamma (sum_list (map (\<lambda>c. alpha c + n c) (unique cols))))"
    unfolding logLikeDisc_codes [OF ne rect codes] cols_def alpha_def n_def ..
  then show ?thesis
    unfolding s1 s2 by (simp add: cols_def alpha_def n_def Let_def)
qed

theorem logLikeDisc_dirichlet_witness:
  "[[1, 2], [2, 2]] \<noteq> ([] :: int list list)
   \<and> logLikeDisc (\<lambda>v. v) small (map (map str) [[1, 2], [2, 2]]) = Inr (- 3 / 8)"
  using logLikeDisc_dirichlet [of "[[1, 2], [2, 2]]" 2 "\<lambda>v. v" small]
  by (simp add: columns_2x2 Odds_small Let_def)

text \<open>
  Claim C4 as stated fails on the single row \<open>[1]\<close> with \<open>MAF = 1/2\<close>: the code reads
  the odds at index 0, which is 1/4, where the claim reads them at index 1, which is 1/2.
  The last two lines show the two results apart when the identity stands in for
  \<^verbatim>\<open>tf.lgamma\<close>.
\<close>

theorem logLikeDisc_claimed_alpha_counterexample:
  "bindE (category_index (map (map str) [[1]])) (\<lambda>(idx, N). category_alpha small idx) = Inr [1 / 4]
   \<and> map (alpha_as_claimed small) (columns [[1]]) = [1 / 2]
   \<and> logLikeDisc (\<lambda>v. v) small (map (map str) [[1]]) = Inr (- 1 / 4)
   \<and> logLikeDisc_as_claimed (\<lambda>v. v) small [[1]] = - 1 / 2"
proof -
  have c: "columns [[1 :: int]] = [[1]]"
    by (simp add: columns_def shape1_def)
  have w: "wrap32 0 = 0"
    by (simp add: wrap32_def)
  have i: "category_index (map (map str) [[1]]) = Inr ([[0]], [1])"
    using category_index_str [of "[[1]]" 1] by (simp add: c w)
  have a: "category_alpha small [[0]] = Inr [1 / 4]"
    by (simp add: category_alpha_total Odds_small)
  have l: "logLikeDisc (\<lambda>v. v) small (map (map str) [[1]]) = Inr (- 1 / 4)"
    using logLikeDisc_str [of "[[1]]" 1 "\<lambda>v. v" small] by (simp add: c w a)
  have s: "map (alpha_as_claimed small) (columns [[1]]) = [1 / 2]"
    by (simp add: c alpha_as_claimed_def Odds_small)
  have t: "logLikeDisc_as_claimed (\<lambda>v. v) small [[1]] = - 1 / 2"
    by (simp add: logLikeDisc_as_claimed_def c alpha_as_claimed_def Odds_small)
  from i a l s t show ?thesis by simp
qed

text \<open>A code 0 makes the index \<open>-1\<close>, which \<^verbatim>\<open>tf.gather\<close> rejects.\<close>

lemma logLikeDisc_code_zero: "logLikeDisc lgamma ps (map (map str) [[0]]) = Inl InvalidArgument"
proof -
  have c: "columns [[0 :: int]] = [[0]]"
    by (simp add: columns_def shape1_def)
  have w: "wrap32 (- 1) = - 1"
    by (simp add: wrap32_def)
  have a: "category_alpha ps [[- 1]] = Inl InvalidArgument"
    by (simp add: category_alpha_total)
  show ?thesis
    using logLikeDisc_str [of "[[0]]" 1 lgamma ps] by (simp add: c w a)
qed







subsection \<open>The same step in float64\<close>




























section \<open>The proposal\<close>

lemma length_where_equal: "length (where_equal xs v) = count_list xs v"
proof (induction xs rule: rev_induct)
  case Nil
  then show ?case by (simp add: where_equal_def)
next
  case (snoc a xs)
  have "filter (\<lambda>j. (xs @ [a]) ! j = v) [0..<length xs] = filter (\<lambda>j. xs ! j = v) [0..<length xs]"
    by (rule filter_cong) (auto simp: nth_append)
  with snoc show ?case by (simp add: where_equal_def)
qed

lemma set_where_equal: "set (where_equal xs v) = {i. i < length xs \<and> xs ! i = v}"
  by (auto simp: where_equal_def)

lemma two_bearers:
  assumes "i < length xs" "j < length xs" "i \<noteq> j" "xs ! i = v" "xs ! j = v"
  shows "2 \<le> count_list xs v"
proof -
  have "{i, j} \<subseteq> {k. k < length xs \<and> xs ! k = v}" using assms by auto
  then have "card {i, j} \<le> card {k. k < length xs \<and> xs ! k = v}"
    by (intro card_mono) auto
  moreover have "card {i, j} = 2" using assms(3) by simp
  moreover have "card {k. k < length xs \<and> xs ! k = v} = count_list xs v"
    using length_where_equal [of xs v] distinct_card [of "where_equal xs v"]
    by (simp add: set_where_equal where_equal_def)
  ultimately show ?thesis by simp
qed

lemma choice2_Inr:
  "choice2 a p q = Inr c \<longleftrightarrow> c = [a ! p, a ! q] \<and> p < length a \<and> q < length a \<and> p \<noteq> q"
  by (auto simp: choice2_def)

lemma draw_xy_Inr:
  "draw_xy Ix p q = Inr (x, y) \<longleftrightarrow>
     p < length Ix \<and> q < length Ix \<and> p \<noteq> q \<and> x = min (Ix ! p) (Ix ! q) \<and> y = max (Ix ! p) (Ix ! q)"
proof (cases "choice2 Ix p q")
  case (Inl e)
  then show ?thesis using choice2_Inr [of Ix p q] by (auto simp: draw_xy_def)
next
  case (Inr c)
  then show ?thesis using choice2_Inr [of Ix p q c]
    by (auto simp: draw_xy_def Let_def min_def max_def)
qed

lemma attempt_Inr:
  assumes "attempt Ix d = Inr (x, y, Iy)"
  shows "\<exists>p q k. p < length Ix \<and> q < length Ix \<and> p \<noteq> q \<and> k < length Ix
          \<and> x = min (Ix ! p) (Ix ! q) \<and> y = max (Ix ! p) (Ix ! q)
          \<and> Ix ! k = x \<and> Iy = Ix[k := y]"
proof -
  obtain x' y' where xy: "draw_xy Ix (pos1 d) (pos2 d) = Inr (x', y')"
    using assms by (cases "draw_xy Ix (pos1 d) (pos2 d)") (auto simp: attempt_def)
  let ?p = "pos1 d" and ?q = "pos2 d"
  from xy have v: "?p < length Ix" "?q < length Ix" "?p \<noteq> ?q"
    "x' = min (Ix ! ?p) (Ix ! ?q)" "y' = max (Ix ! ?p) (Ix ! ?q)"
    by (simp_all add: draw_xy_Inr)
  define ks where "ks = where_equal Ix x'"
  have "Ix ! ?p = x' \<or> Ix ! ?q = x'" unfolding v(4) by (simp add: min_def)
  then have "?p \<in> set ks \<or> ?q \<in> set ks"
    unfolding ks_def set_where_equal using v(1,2) by blast
  then have "ks \<noteq> []" by auto
  define k where "k = (if length ks > 1 then ks ! (pick d mod length ks) else hd ks)"
  have ksel: "(if length ks > 1 then [ks ! (pick d mod length ks)] else ks) = [k]"
    using \<open>ks \<noteq> []\<close> by (cases ks) (auto simp: k_def)
  have "k \<in> set ks" using \<open>ks \<noteq> []\<close> by (simp add: k_def)
  then have k: "k < length Ix" "Ix ! k = x'" by (simp_all add: ks_def set_where_equal)
  have "attempt Ix d = Inr (x', y', Ix[k := y'])"
    using xy ksel [unfolded ks_def] by (simp add: attempt_def Let_def)
  with assms have e: "x = x'" "y = y'" "Iy = Ix[k := y']" by auto
  show ?thesis
    unfolding e using v k by blast
qed

lemma attempt_valid:
  assumes "pos1 d < length Ix" "pos2 d < length Ix" "pos1 d \<noteq> pos2 d"
  shows "\<exists>x y Iy. attempt Ix d = Inr (x, y, Iy)"
proof -
  have "draw_xy Ix (pos1 d) (pos2 d)
        = Inr (min (Ix ! pos1 d) (Ix ! pos2 d), max (Ix ! pos1 d) (Ix ! pos2 d))"
    using assms by (simp add: draw_xy_Inr)
  then show ?thesis by (simp add: attempt_def Let_def)
qed

lemma attempt_exits:
  assumes "attempt Ix d = Inr (x, y, Iy)"
  shows "count_list Ix x \<noteq> 1 \<or> count_list Iy y \<noteq> 1"
proof -
  from attempt_Inr [OF assms] obtain p q k where
    p: "p < length Ix" and q: "q < length Ix" and pq: "p \<noteq> q" and k: "k < length Ix"
    and x: "x = min (Ix ! p) (Ix ! q)" and y: "y = max (Ix ! p) (Ix ! q)"
    and kx: "Ix ! k = x" and Iy: "Iy = Ix[k := y]"
    by blast
  show ?thesis
  proof (cases "Ix ! p = Ix ! q")
    case True
    then have "Ix ! p = x" "Ix ! q = x" using x by simp_all
    then have "2 \<le> count_list Ix x"
      using two_bearers [OF p q pq] by blast
    then show ?thesis by simp
  next
    case False
    then have lt: "x < y" unfolding x y by (simp add: min_def max_def)
    have "Ix ! p = y \<or> Ix ! q = y" unfolding y by (simp add: max_def)
    then obtain j where j: "j < length Ix" "Ix ! j = y"
      using p q by blast
    have jk: "j \<noteq> k" using j kx lt by auto
    have l: "k < length Iy" "j < length Iy" using k j Iy by simp_all
    have "Iy ! k = y" "Iy ! j = y" using k j jk Iy by simp_all
    then have "2 \<le> count_list Iy y"
      using two_bearers [OF l] jk by blast
    then show ?thesis by simp
  qed
qed

lemma retry_loop_first:
  assumes "attempt Ix d = Inr r"
  shows "retry_loop Ix (d # ds) = Inr r"
proof -
  obtain x y Iy where r: "r = (x, y, Iy)" by (cases r) auto
  have "length (where_equal Ix x) \<noteq> 1 \<or> length (where_equal Iy y) \<noteq> 1"
    using attempt_exits [of Ix d x y Iy] assms r by (simp add: length_where_equal)
  then show ?thesis using assms r by (simp add: Let_def)
qed

lemma retry_loop_Inr:
  assumes "retry_loop Ix ds = Inr (x, y, Iy)"
  shows "\<exists>d \<in> set ds. attempt Ix d = Inr (x, y, Iy)"
  using assms
proof (induction ds)
  case Nil
  then show ?case by simp
next
  case (Cons d ds)
  show ?case
  proof (cases "attempt Ix d")
    case (Inl e)
    with Cons.prems show ?thesis by simp
  next
    case (Inr r)
    from retry_loop_first [OF this] Cons.prems Inr show ?thesis by simp
  qed
qed

section \<open>One iteration and the loop\<close>

lemma bindE_Inr_iff: "bindE m f = Inr r \<longleftrightarrow> (\<exists>v. m = Inr v \<and> f v = Inr r)"
  by (cases m) simp_all

lemma sess_run_Inr:
  assumes "sess_run lgamma ps u index1 index2 var1 var2 = Inr r"
  shows "\<exists>pX pY. score lgamma ps index1 var1 var2 = Inr pX \<and> score lgamma ps index2 var1 var2 = Inr pY
          \<and> r = (if accept u pX pY then index2 else index1)"
  using assms unfolding sess_run_def bindE_Inr_iff by auto

lemma iteration_Inr:
  assumes "iteration lgamma ps Ix rd = Inr Ix'"
  shows "\<exists>x y Iy. retry_loop Ix (draws rd) = Inr (x, y, Iy) \<and> (Ix' = Ix \<or> Ix' = Iy)"
proof -
  from assms obtain r where r: "retry_loop Ix (draws rd) = Inr r"
    and s: "(case r of (x, y, Iy) \<Rightarrow> sess_run lgamma ps (unif rd) Ix Iy x y) = Inr Ix'"
    unfolding iteration_def bindE_Inr_iff by blast
  obtain x y Iy where xy: "r = (x, y, Iy)" by (cases r) auto
  from s xy sess_run_Inr [of lgamma ps "unif rd" Ix Iy x y Ix'] have "Ix' = Ix \<or> Ix' = Iy"
    by (auto split: if_splits)
  with r xy show ?thesis by blast
qed

text \<open>What one iteration can do to the assignment.\<close>

lemma iteration_step:
  assumes "iteration lgamma ps Ix rd = Inr Ix'"
  shows "Ix' = Ix \<or> (\<exists>k y. k < length Ix \<and> Ix ! k \<le> y \<and> y \<in> set Ix \<and> Ix' = Ix[k := y])"
proof -
  from iteration_Inr [OF assms] obtain x y Iy where
    r: "retry_loop Ix (draws rd) = Inr (x, y, Iy)" and c: "Ix' = Ix \<or> Ix' = Iy"
    by blast
  from retry_loop_Inr [OF r] obtain d where "attempt Ix d = Inr (x, y, Iy)" by blast
  from attempt_Inr [OF this] obtain p q k where
    p: "p < length Ix" and q: "q < length Ix" and k: "k < length Ix"
    and x: "x = min (Ix ! p) (Ix ! q)" and y: "y = max (Ix ! p) (Ix ! q)"
    and kx: "Ix ! k = x" and Iy: "Iy = Ix[k := y]"
    by blast
  have "x \<le> y" unfolding x y by (simp add: min_def max_def)
  moreover have "y \<in> set Ix" unfolding y using p q by (simp add: max_def)
  ultimately show ?thesis using c k kx Iy by blast
qed

lemma sampler_loop_invariant:
  assumes "sampler_loop lgamma ps Ix rounds = Inr Ix'"
  shows "length Ix' = length Ix \<and> set Ix' \<subseteq> set Ix \<and> (\<forall>i < length Ix. Ix ! i \<le> Ix' ! i)"
  using assms
proof (induction rounds arbitrary: Ix)
  case Nil
  then show ?case by simp
next
  case (Cons rd rounds)
  from Cons.prems obtain Im where it: "iteration lgamma ps Ix rd = Inr Im"
    and rest: "sampler_loop lgamma ps Im rounds = Inr Ix'"
    by (auto simp: bindE_Inr_iff)
  from Cons.IH [OF rest] have ih: "length Ix' = length Im" "set Ix' \<subseteq> set Im"
    "\<forall>i < length Im. Im ! i \<le> Ix' ! i" by simp_all
  have st: "length Im = length Ix \<and> set Im \<subseteq> set Ix \<and> (\<forall>i < length Ix. Ix ! i \<le> Im ! i)"
  proof -
    from iteration_step [OF it] consider "Im = Ix"
      | k y where "k < length Ix" "Ix ! k \<le> y" "y \<in> set Ix" "Im = Ix[k := y]"
      by blast
    then show ?thesis
    proof cases
      case 1
      then show ?thesis by simp
    next
      case 2
      have "set (Ix[k := y]) \<subseteq> insert y (set Ix)" by (rule set_update_subset_insert)
      with 2 show ?thesis by (auto simp: nth_list_update)
    qed
  qed
  with ih show ?case by (auto intro: order_trans)
qed

section \<open>The run returns\<close>

lemma select_rows_ok:
  assumes "length index \<le> length data"
  shows "select_rows data index var = Inr (map (\<lambda>i. data ! i) (where_equal index var))"
  unfolding select_rows_def
  by (rule mapE_all_Inr) (use assms in \<open>auto simp: gather_def where_equal_def\<close>)

lemma logLikeDisc_ok:
  assumes "rows \<noteq> []" and "\<forall>r \<in> set rows. length r = m"
    and "\<forall>r \<in> set rows. \<forall>c \<in> set r. c \<in> {1, 2, 3}"
  shows "\<exists>v. logLikeDisc lgamma ps (map (map str) rows) = Inr v"
  unfolding logLikeDisc_codes [OF assms] by blast

lemma calcProb_ok:
  assumes "\<forall>r \<in> set rows. length r = m"
    and "\<forall>r \<in> set rows. \<forall>c \<in> set r. c \<in> {1, 2, 3}"
  shows "\<exists>v. calcProb lgamma ps (map (map str) rows) C = Inr v"
proof (cases "rows = []")
  case True
  then show ?thesis by (simp add: calcProb_def)
next
  case False
  from logLikeDisc_ok [OF False assms] obtain v
    where "logLikeDisc lgamma ps (map (map str) rows) = Inr v" by blast
  then show ?thesis by (simp add: calcProb_def logLikeDepe_def Let_def)
qed

lemma score_ok:
  assumes len: "length index = TotalNum ps" and rows: "TotalNum ps \<le> length (dataset ps)"
    and rect: "\<forall>r \<in> set (dataset ps). length r = m"
    and codes: "\<forall>r \<in> set (take (SNPNum ps) (dataset ps)). \<forall>v \<in> set r. astype_int32 v \<in> {1, 2, 3}"
  shows "\<exists>v. score lgamma ps index var1 var2 = Inr v"
proof -
  define G where "G = map (map astype_int32) (take (SNPNum ps) (dataset ps))"
  define D where "D = take (SNPNum ps) index"
  define C where "C = drop (SNPNum ps) (take (TotalNum ps) index)"
  have gd: "GeneData ps = map (map str) G"
    by (simp add: GeneData_def G_def comp_def)
  have lG: "length G = SNPNum ps" using rows by (simp add: G_def TotalNum_def)
  have lD: "length D = SNPNum ps" using len by (simp add: D_def TotalNum_def)
  have lP: "length C \<le> length (PhenoData ps)"
    using len rows by (simp add: C_def PhenoData_def)
  have Grect: "\<forall>r \<in> set G. length r = m"
    using rect by (auto simp: G_def dest: in_set_takeD)
  have Gcodes: "\<forall>r \<in> set G. \<forall>c \<in> set r. c \<in> {1, 2, 3}"
    using codes by (auto simp: G_def)
  have sel: "select_rows (GeneData ps) D var
      = Inr (map (map str) (map (\<lambda>i. G ! i) (where_equal D var)))" for var
  proof -
    have "select_rows (GeneData ps) D var = Inr (map (\<lambda>i. GeneData ps ! i) (where_equal D var))"
      by (rule select_rows_ok) (simp add: gd lG lD)
    moreover have "map (\<lambda>i. GeneData ps ! i) (where_equal D var)
        = map (map str) (map (\<lambda>i. G ! i) (where_equal D var))"
      using lG lD by (auto simp: gd where_equal_def)
    ultimately show ?thesis by simp
  qed
  have selC: "select_rows (PhenoData ps) C var
      = Inr (map (\<lambda>i. PhenoData ps ! i) (where_equal C var))" for var
    by (rule select_rows_ok) (rule lP)
  have sub: "set (map (\<lambda>i. G ! i) (where_equal D var)) \<subseteq> set G" for var
    using lG lD by (auto simp: where_equal_def)
  have cp: "\<exists>v. calcProb lgamma ps (map (map str) (map (\<lambda>i. G ! i) (where_equal D var))) X = Inr v"
    for var X
    by (rule calcProb_ok [where m = m]) (use sub [of var] Grect Gcodes in blast)+
  obtain p1 where p1: "calcProb lgamma ps (map (map str) (map (\<lambda>i. G ! i) (where_equal D var1)))
      (map (\<lambda>i. PhenoData ps ! i) (where_equal C var1)) = Inr p1"
    using cp by blast
  obtain p2 where p2: "calcProb lgamma ps (map (map str) (map (\<lambda>i. G ! i) (where_equal D var2)))
      (map (\<lambda>i. PhenoData ps ! i) (where_equal C var2)) = Inr p2"
    using cp by blast
  show ?thesis
    unfolding score_def Let_def D_def [symmetric] C_def [symmetric] sel selC bindE_Inr p1 p2
    by blast
qed

lemma iteration_ok:
  assumes len: "length Ix = TotalNum ps" and rows: "TotalNum ps \<le> length (dataset ps)"
    and rect: "\<forall>r \<in> set (dataset ps). length r = m"
    and codes: "\<forall>r \<in> set (take (SNPNum ps) (dataset ps)). \<forall>v \<in> set r. astype_int32 v \<in> {1, 2, 3}"
    and dr: "draws rd = d # ds" "pos1 d < TotalNum ps" "pos2 d < TotalNum ps" "pos1 d \<noteq> pos2 d"
  shows "\<exists>Ix'. iteration lgamma ps Ix rd = Inr Ix' \<and> length Ix' = TotalNum ps"
proof -
  from attempt_valid [of d Ix] dr len obtain x y Iy where a: "attempt Ix d = Inr (x, y, Iy)"
    by auto
  then have r: "retry_loop Ix (draws rd) = Inr (x, y, Iy)"
    using retry_loop_first [OF a, of ds] dr(1) by (simp del: retry_loop.simps)
  from attempt_Inr [OF a] have lIy: "length Iy = TotalNum ps" using len by auto
  obtain pX where pX: "score lgamma ps Ix x y = Inr pX"
    using score_ok [OF len rows rect codes] by blast
  obtain pY where pY: "score lgamma ps Iy x y = Inr pY"
    using score_ok [OF lIy rows rect codes] by blast
  have "iteration lgamma ps Ix rd = Inr (if accept (unif rd) pX pY then Iy else Ix)"
    by (simp add: iteration_def r sess_run_def pX pY)
  then show ?thesis using len lIy by auto
qed

lemma sampler_loop_ok:
  assumes rows: "TotalNum ps \<le> length (dataset ps)"
    and rect: "\<forall>r \<in> set (dataset ps). length r = m"
    and codes: "\<forall>r \<in> set (take (SNPNum ps) (dataset ps)). \<forall>v \<in> set r. astype_int32 v \<in> {1, 2, 3}"
    and dr: "\<forall>rd \<in> set rounds. \<exists>d ds. draws rd = d # ds \<and> pos1 d < TotalNum ps
               \<and> pos2 d < TotalNum ps \<and> pos1 d \<noteq> pos2 d"
    and len: "length Ix = TotalNum ps"
  shows "\<exists>Ix'. sampler_loop lgamma ps Ix rounds = Inr Ix'"
  using dr len
proof (induction rounds arbitrary: Ix)
  case Nil
  then show ?case by simp
next
  case (Cons rd rounds)
  from Cons.prems(1) obtain d ds where d: "draws rd = d # ds" "pos1 d < TotalNum ps"
    "pos2 d < TotalNum ps" "pos1 d \<noteq> pos2 d" by auto
  from iteration_ok [OF Cons.prems(2) rows rect codes d] obtain Im
    where it: "iteration lgamma ps Ix rd = Inr Im" and l: "length Im = TotalNum ps" by blast
  from Cons.IH [OF _ l] Cons.prems(1) obtain Ix' where "sampler_loop lgamma ps Im rounds = Inr Ix'"
    by auto
  with it show ?case by simp
qed

section \<open>Counting the draws\<close>

lemma set_position_pairs: "set (position_pairs n) = {(p, q). p < n \<and> q < n \<and> p \<noteq> q}"
  by (auto simp: position_pairs_def)

lemma distinct_position_pairs: "distinct (position_pairs n)"
  by (simp add: position_pairs_def distinct_product)

lemma card_bearers: "card {p. p < length xs \<and> xs ! p = v} = count_list xs v"
proof -
  have "distinct (where_equal xs v)" by (simp add: where_equal_def)
  then have "card (set (where_equal xs v)) = length (where_equal xs v)"
    by (rule distinct_card)
  then show ?thesis by (simp add: set_where_equal length_where_equal)
qed

lemma min_max_pair:
  fixes u v a b :: int
  shows "a < b \<Longrightarrow> (min u v = a \<and> max u v = b) = (u = a \<and> v = b \<or> u = b \<and> v = a)"
    and "(min u v = a \<and> max u v = a) = (u = a \<and> v = a)"
    and "b < a \<Longrightarrow> \<not> (min u v = a \<and> max u v = b)"
  by (auto simp: min_def max_def)

lemma count_draws:
  "length (filter (\<lambda>(p, q). draw_xy Ix p q = Inr (a, b)) (position_pairs (length Ix)))
   = (if a < b then 2 * count_list Ix a * count_list Ix b
      else if a = b then count_list Ix a * (count_list Ix a - 1)
      else 0)"
proof -
  define n where "n = length Ix"
  define A where "A = {p. p < n \<and> Ix ! p = a}"
  define B where "B = {p. p < n \<and> Ix ! p = b}"
  define S where "S = {(p, q). p < n \<and> q < n \<and> p \<noteq> q
                        \<and> min (Ix ! p) (Ix ! q) = a \<and> max (Ix ! p) (Ix ! q) = b}"
  have fin: "finite A" "finite B" by (simp_all add: A_def B_def)
  have cA: "card A = count_list Ix a" and cB: "card B = count_list Ix b"
    by (simp_all add: A_def B_def n_def card_bearers)
  have "{x. (case x of (p, q) \<Rightarrow> draw_xy Ix p q = Inr (a, b))} \<inter> set (position_pairs n) = S"
    by (auto simp: S_def set_position_pairs draw_xy_Inr n_def)
  then have lhs: "length (filter (\<lambda>(p, q). draw_xy Ix p q = Inr (a, b)) (position_pairs n)) = card S"
    using distinct_length_filter [OF distinct_position_pairs, of _ n] by simp
  consider "a < b" | "a = b" | "b < a" by linarith
  then have "card S = (if a < b then 2 * card A * card B
      else if a = b then card A * (card A - 1) else 0)"
  proof cases
    case 1
    have "S = A \<times> B \<union> B \<times> A"
      unfolding S_def A_def B_def min_max_pair(1) [OF 1] using 1 by auto
    moreover have "A \<inter> B = {}"
    proof -
      have "a = b" if "p \<in> A" "p \<in> B" for p
      proof -
        from that have "Ix ! p = a" "Ix ! p = b" by (simp_all add: A_def B_def)
        then show ?thesis by (rule trans [OF sym])
      qed
      with 1 show ?thesis by blast
    qed
    then have "(A \<times> B) \<inter> (B \<times> A) = {}" by blast
    ultimately have "card S = card (A \<times> B) + card (B \<times> A)"
      using fin by (simp only: card_Un_disjoint finite_cartesian_product)
    then show ?thesis using 1 by (simp add: card_cartesian_product)
  next
    case 2
    have "S = (SIGMA p : A. A - {p})"
      unfolding S_def A_def 2 [symmetric] min_max_pair(2) by auto
    then have "card S = (\<Sum>p \<in> A. card (A - {p}))"
      using fin by simp
    also have "\<dots> = (\<Sum>p \<in> A. card A - 1)"
      by (rule sum.cong) (simp_all add: fin)
    finally show ?thesis using 2 by simp
  next
    case 3
    have "S = {}"
      unfolding S_def using min_max_pair(3) [OF 3] by auto
    then show ?thesis using 3 by simp
  qed
  with lhs show ?thesis by (simp add: cA cB n_def)
qed

lemma length_position_pairs: "length (position_pairs n) = n * (n - 1)"
proof -
  have "length (position_pairs n) = card {(p, q). p < n \<and> q < n \<and> p \<noteq> q}"
    using distinct_card [OF distinct_position_pairs, of n] by (simp add: set_position_pairs)
  also have "{(p, q). p < n \<and> q < n \<and> p \<noteq> q} = (SIGMA p : {..<n}. {..<n} - {p})"
    by auto
  also have "card \<dots> = (\<Sum>p \<in> {..<n}. card ({..<n} - {p}))"
    by simp
  also have "\<dots> = (\<Sum>p \<in> {..<n}. n - 1)"
    by (rule sum.cong) simp_all
  finally show ?thesis by simp
qed

section \<open>The sampler on the small data set\<close>

lemma GeneData_small: "GeneData small = map (map str) [[1, 2], [2, 2]]"
  by (simp add: GeneData_def small_def astype_int32_def)

lemma PhenoData_small: "PhenoData small = [[0, 4]]"
  by (simp add: PhenoData_def small_def TotalNum_def)

lemma columns_1x2: "columns [[a, b]] = [[a], [b]]"
  by (simp add: columns_def shape1_def upt_rec)

lemma where_equal_Cons:
  "where_equal (a # xs) v = (if a = v then [0] else []) @ map Suc (where_equal xs v)"
proof -
  have "[0..<length (a # xs)] = 0 # map Suc [0..<length xs]"
    by (simp add: upt_conv_Cons map_Suc_upt del: upt_Suc)
  then show ?thesis
    by (simp add: where_equal_def filter_map comp_def)
qed

lemma where_equal_Nil: "where_equal [] v = []"
  by (simp add: where_equal_def)

lemma gather_nat: "gather xs (int i) = (if i < length xs then Inr (xs ! i) else Inl InvalidArgument)"
  by (simp add: gather_def)

lemma score_small_before: "score (\<lambda>v. v) small [0, 1, 2] 0 1 = Inr (- 5 / 4)"
proof -
  have a: "logLikeDisc (\<lambda>v. v) small (map (map str) [[1, 2]]) = Inr (- 3 / 4)"
    using logLikeDisc_codes [of "[[1, 2]]" 2 "\<lambda>v. v" small]
    by (simp add: columns_1x2 Odds_small)
  have b: "logLikeDisc (\<lambda>v. v) small (map (map str) [[2, 2]]) = Inr (- 1 / 2)"
    using logLikeDisc_codes [of "[[2, 2]]" 2 "\<lambda>v. v" small]
    by (simp add: columns_1x2 Odds_small)
  have n: "SNPNum small = 2" "TotalNum small = 3" by (simp_all add: small_def TotalNum_def)
  show ?thesis
    using a b
    by (simp add: score_def n GeneData_small PhenoData_small select_rows_def where_equal_Cons
        where_equal_Nil gather_nat calcProb_def)
qed

lemma score_small_after: "score (\<lambda>v. v) small [1, 1, 2] 0 1 = Inr (- 3 / 8)"
proof -
  have a: "logLikeDisc (\<lambda>v. v) small (map (map str) [[1, 2], [2, 2]]) = Inr (- 3 / 8)"
    using logLikeDisc_codes [of "[[1, 2], [2, 2]]" 2 "\<lambda>v. v" small]
    by (simp add: columns_2x2 Odds_small)
  have n: "SNPNum small = 2" "TotalNum small = 3" by (simp_all add: small_def TotalNum_def)
  show ?thesis
    using a
    by (simp add: score_def n GeneData_small PhenoData_small select_rows_def where_equal_Cons
        where_equal_Nil gather_nat calcProb_def ZERO_def)
qed

lemma retry_loop_small:
  "retry_loop [0, 1, 2] [\<lparr>pos1 = 0, pos2 = 1, pick = 0\<rparr>] = Inr (0, 1, [1, 1, 2])"
  by (simp add: attempt_def draw_xy_def choice2_def where_equal_Cons where_equal_Nil Let_def)

lemma retry_loop_duplicate:
  "retry_loop [1, 1, 2] [\<lparr>pos1 = 0, pos2 = 1, pick = 0\<rparr>] = Inr (1, 1, [1, 1, 2])"
  by (simp add: attempt_def draw_xy_def choice2_def where_equal_Cons where_equal_Nil Let_def)

lemma retry_loop_pick:
  "retry_loop [1, 1, 2] [\<lparr>pos1 = 0, pos2 = 2, pick = 1\<rparr>] = Inr (1, 2, [1, 2, 2])"
  by (simp add: attempt_def draw_xy_def choice2_def where_equal_Cons where_equal_Nil Let_def)

lemma iteration_small:
  "iteration (\<lambda>v. v) small [0, 1, 2] \<lparr>draws = [\<lparr>pos1 = 0, pos2 = 1, pick = 0\<rparr>], unif = 1 / 2\<rparr>
   = Inr [1, 1, 2]"
  unfolding iteration_def round.select_convs retry_loop_small bindE_Inr prod.case sess_run_def
    score_small_before score_small_after accept_def ZERO_def
  by simp

section \<open>Acceptance, draws and the retry loop\<close>

lemma where_equal_take:
  assumes "n \<le> length I"
  shows "where_equal (take n I) v = filter (\<lambda>i. I ! i = v) [0..<n]"
proof -
  have "filter (\<lambda>j. take n I ! j = v) [0..<n] = filter (\<lambda>i. I ! i = v) [0..<n]"
    by (rule filter_cong) simp_all
  then show ?thesis using assms by (simp add: where_equal_def)
qed

lemma where_equal_drop_take:
  assumes "n \<le> t" and "t \<le> length I"
  shows "map (\<lambda>j. j + n) (where_equal (drop n (take t I)) v) = filter (\<lambda>i. I ! i = v) [n..<t]"
proof -
  have l: "length (drop n (take t I)) = t - n" using assms by simp
  have "filter (\<lambda>j. drop n (take t I) ! j = v) [0..<t - n]
        = filter (\<lambda>j. I ! (j + n) = v) [0..<t - n]"
    by (rule filter_cong) (use assms in \<open>simp_all add: add.commute\<close>)
  then have "map (\<lambda>j. j + n) (where_equal (drop n (take t I)) v)
        = map (\<lambda>j. j + n) (filter (\<lambda>j. I ! (j + n) = v) [0..<t - n])"
    unfolding where_equal_def l by simp
  also have "\<dots> = filter (\<lambda>i. I ! i = v) (map (\<lambda>j. j + n) [0..<t - n])"
    by (simp add: filter_map comp_def)
  also have "map (\<lambda>j. j + n) [0..<t - n] = [n..<t]"
    using assms by (simp add: map_add_upt)
  finally show ?thesis .
qed

lemma score_bearers:
  assumes len: "length index = TotalNum ps" and rows: "TotalNum ps \<le> length (dataset ps)"
  shows "score lgamma ps index var1 var2 =
    bindE (calcProb lgamma ps
            (map (\<lambda>i. GeneData ps ! i) (filter (\<lambda>i. index ! i = var1) [0..<SNPNum ps]))
            (map (\<lambda>i. PhenoData ps ! (i - SNPNum ps))
                 (filter (\<lambda>i. index ! i = var1) [SNPNum ps..<TotalNum ps])))
      (\<lambda>p1. bindE (calcProb lgamma ps
            (map (\<lambda>i. GeneData ps ! i) (filter (\<lambda>i. index ! i = var2) [0..<SNPNum ps]))
            (map (\<lambda>i. PhenoData ps ! (i - SNPNum ps))
                 (filter (\<lambda>i. index ! i = var2) [SNPNum ps..<TotalNum ps])))
      (\<lambda>p2. Inr (p1 + p2)))"
proof -
  define D where "D = take (SNPNum ps) index"
  define C where "C = drop (SNPNum ps) (take (TotalNum ps) index)"
  have n: "SNPNum ps \<le> TotalNum ps" by (simp add: TotalNum_def)
  have lD: "length D \<le> length (GeneData ps)"
    using len rows n by (simp add: D_def GeneData_def)
  have lC: "length C \<le> length (PhenoData ps)"
    using len rows by (simp add: C_def PhenoData_def)
  have wD: "where_equal D v = filter (\<lambda>i. index ! i = v) [0..<SNPNum ps]" for v
    unfolding D_def by (rule where_equal_take) (use len n in simp)
  have wC: "map (\<lambda>i. PhenoData ps ! i) (where_equal C v)
      = map (\<lambda>i. PhenoData ps ! (i - SNPNum ps))
            (filter (\<lambda>i. index ! i = v) [SNPNum ps..<TotalNum ps])" for v
  proof -
    have "map (\<lambda>i. PhenoData ps ! (i - SNPNum ps))
            (filter (\<lambda>i. index ! i = v) [SNPNum ps..<TotalNum ps])
        = map (\<lambda>i. PhenoData ps ! (i - SNPNum ps))
            (map (\<lambda>j. j + SNPNum ps) (where_equal C v))"
      unfolding C_def by (subst where_equal_drop_take) (use len n in simp_all)
    then show ?thesis by (simp add: comp_def)
  qed
  have sD: "select_rows (GeneData ps) D v
      = Inr (map (\<lambda>i. GeneData ps ! i) (filter (\<lambda>i. index ! i = v) [0..<SNPNum ps]))" for v
    using select_rows_ok [OF lD, of v] by (simp only: wD)
  have sC: "select_rows (PhenoData ps) C v
      = Inr (map (\<lambda>i. PhenoData ps ! (i - SNPNum ps))
                 (filter (\<lambda>i. index ! i = v) [SNPNum ps..<TotalNum ps]))" for v
    using select_rows_ok [OF lC, of v] by (simp only: wC)
  show ?thesis
    unfolding score_def Let_def D_def [symmetric] C_def [symmetric] sD sC bindE_Inr
    by simp
qed


lemma retry_loop_to_trait:
  "retry_loop [0, 1, 2] [\<lparr>pos1 = 0, pos2 = 2, pick = 0\<rparr>] = Inr (0, 2, [2, 1, 2])"
  by (simp add: attempt_def draw_xy_def choice2_def where_equal_Cons where_equal_Nil Let_def)

lemma MU0_small: "MU0 small = 4"
  by (simp add: MU0_def MEANS_def PhenoData_small reduce_max_def reduce_mean_def)

lemma NU0_small: "NU0 small = 2"
  by (simp add: NU0_def small_def)

lemma logLikeCont_small_trait:
  "logLikeCont (\<lambda>v. v) small [[0, 4]] = 1 - ln (2 * pi) + ln (1 / 3) / 2 - 2 * ln ((38 / 3) / 2)"
  by (simp add: logLikeCont_def func1_def Let_def shape1_def reduce_mean_def reduce_sum_def
      KAPPA0_def NU0_small MU0_small)

lemma logLikeCont_small_first:
  "logLikeCont (\<lambda>v. v) small [[0]] = 1 / 2 - ln (2 * pi) / 2 + ln (1 / 2) / 2 - 3 * ln (10 / 2) / 2"
  by (simp add: logLikeCont_def func1_def Let_def shape1_def reduce_mean_def reduce_sum_def
      KAPPA0_def NU0_small MU0_small)

lemma logLikeCont_small_second:
  "logLikeCont (\<lambda>v. v) small [[4]] = 1 / 2 - ln (2 * pi) / 2 + ln (1 / 2) / 2"
  by (simp add: logLikeCont_def func1_def Let_def shape1_def reduce_mean_def reduce_sum_def
      KAPPA0_def NU0_small MU0_small)

lemma str_1_2: "str 1 = ''1''" "str 2 = ''2''"
  by (simp_all add: str_def digit_char_def decimal_digits_def)

lemma logLikeDisc_small_first: "logLikeDisc (\<lambda>v. v) small (map (map str) [[1, 2]]) = Inr (- 3 / 4)"
  using logLikeDisc_codes [of "[[1, 2]]" 2 "\<lambda>v. v" small]
  by (simp add: columns_1x2 Odds_small)

lemma calcProb_small_before_x:
  "calcProb (\<lambda>v. v) small [[str 1, str 2]] [] = Inr (- 3 / 4)"
  using logLikeDisc_small_first by (simp add: calcProb_def)

lemma calcProb_small_before_y:
  "calcProb (\<lambda>v. v) small [] [[0, 4]]
   = Inr (1 - ln (2 * pi) + ln (1 / 3) / 2 - 2 * ln ((38 / 3) / 2))"
  by (simp add: calcProb_def logLikeCont_small_trait)

lemma calcProb_small_after_y:
  "calcProb (\<lambda>v. v) small [[str 1, str 2]] [[0, 4]]
   = Inr ((1 / 2 - ln (2 * pi) / 2 + ln (1 / 2) / 2 - 3 * ln (10 / 2) / 2)
          + (1 / 2 - ln (2 * pi) / 2 + ln (1 / 2) / 2) - 3 / 4)"
proof -
  have rj: "reduce_join [[str 1, str 2]] = [''1'', ''2'']"
    by (simp add: reduce_join_def columns_1x2 str_1_2)
  have d: "logLikeDisc (\<lambda>v. v) small [[str 1, str 2]] = Inr (- 3 / 4)"
    using logLikeDisc_small_first by simp
  show ?thesis
    unfolding calcProb_def logLikeDepe_def Let_def rj d
    by (simp add: where_equal_Cons where_equal_Nil reduce_sum_def
        logLikeCont_small_first logLikeCont_small_second)
qed


text \<open>
  Claim C3. Take an iteration whose retry loop hands over the proposal \<open>Iy\<close> for the
  labels \<open>x\<close> and \<open>y\<close>, and whose uniform number lies strictly between 0 and 1. Let
  \<open>before_x\<close> be \<^verbatim>\<open>calcProb\<close> of the variant rows and the trait rows of the variables
  that bear \<open>x\<close> in the current assignment (positions below \<^verbatim>\<open>SNPNum\<close> are variants,
  those from \<^verbatim>\<open>SNPNum\<close> up to \<^verbatim>\<open>TotalNum\<close> traits), \<open>before_y\<close> the same for \<open>y\<close>,
  and \<open>after_x\<close>, \<open>after_y\<close> the same in the proposal. Then the new assignment is the
  proposal when \<open>ln u \<le> min 0 ((after_x + after_y) - (before_x + before_y))\<close>, and the
  current assignment, unchanged, otherwise.
\<close>

theorem metropolis_acceptance:
  assumes loop: "retry_loop Ix (draws rd) = Inr (x, y, Iy)"
    and len: "length Ix = TotalNum ps" and rows: "TotalNum ps \<le> length (dataset ps)"
    and bx: "calcProb lgamma ps
               (map (\<lambda>i. GeneData ps ! i) (filter (\<lambda>i. Ix ! i = x) [0..<SNPNum ps]))
               (map (\<lambda>i. PhenoData ps ! (i - SNPNum ps))
                    (filter (\<lambda>i. Ix ! i = x) [SNPNum ps..<TotalNum ps])) = Inr before_x"
    and "by": "calcProb lgamma ps
               (map (\<lambda>i. GeneData ps ! i) (filter (\<lambda>i. Ix ! i = y) [0..<SNPNum ps]))
               (map (\<lambda>i. PhenoData ps ! (i - SNPNum ps))
                    (filter (\<lambda>i. Ix ! i = y) [SNPNum ps..<TotalNum ps])) = Inr before_y"
    and ax: "calcProb lgamma ps
               (map (\<lambda>i. GeneData ps ! i) (filter (\<lambda>i. Iy ! i = x) [0..<SNPNum ps]))
               (map (\<lambda>i. PhenoData ps ! (i - SNPNum ps))
                    (filter (\<lambda>i. Iy ! i = x) [SNPNum ps..<TotalNum ps])) = Inr after_x"
    and ay: "calcProb lgamma ps
               (map (\<lambda>i. GeneData ps ! i) (filter (\<lambda>i. Iy ! i = y) [0..<SNPNum ps]))
               (map (\<lambda>i. PhenoData ps ! (i - SNPNum ps))
                    (filter (\<lambda>i. Iy ! i = y) [SNPNum ps..<TotalNum ps])) = Inr after_y"
    and u: "0 < unif rd" "unif rd < 1"
  shows "iteration lgamma ps Ix rd
         = Inr (if ln (unif rd) \<le> min 0 ((after_x + after_y) - (before_x + before_y))
                then Iy else Ix)"
proof -
  from retry_loop_Inr [OF loop] obtain d where "attempt Ix d = Inr (x, y, Iy)" by blast
  from attempt_Inr [OF this] have lIy: "length Iy = TotalNum ps" using len by auto
  have sb: "score lgamma ps Ix x y = Inr (before_x + before_y)"
    unfolding score_bearers [OF len rows] bx "by" by simp
  have sa: "score lgamma ps Iy x y = Inr (after_x + after_y)"
    unfolding score_bearers [OF lIy rows] ax ay by simp
  show ?thesis
    using loop u by (simp add: iteration_def sess_run_def sb sa accept_def ZERO_def)
qed

theorem metropolis_acceptance_witness:
  "retry_loop [0, 1, 2] [\<lparr>pos1 = 0, pos2 = 2, pick = 0\<rparr>] = Inr (0, 2, [2, 1, 2])
   \<and> calcProb (\<lambda>v. v) small [[str 1, str 2]] [] = Inr (- 3 / 4)
   \<and> calcProb (\<lambda>v. v) small [] [[0, 4]]
       = Inr (1 - ln (2 * pi) + ln (1 / 3) / 2 - 2 * ln ((38 / 3) / 2))
   \<and> calcProb (\<lambda>v. v) small [] [] = Inr 0
   \<and> calcProb (\<lambda>v. v) small [[str 1, str 2]] [[0, 4]]
       = Inr ((1 / 2 - ln (2 * pi) / 2 + ln (1 / 2) / 2 - 3 * ln (10 / 2) / 2)
              + (1 / 2 - ln (2 * pi) / 2 + ln (1 / 2) / 2) - 3 / 4)
   \<and> iteration (\<lambda>v. v) small [0, 1, 2]
        \<lparr>draws = [\<lparr>pos1 = 0, pos2 = 2, pick = 0\<rparr>], unif = 1 / 2\<rparr> = Inr [2, 1, 2]"
proof -
  let ?rd = "\<lparr>draws = [\<lparr>pos1 = 0, pos2 = 2, pick = 0\<rparr>], unif = 1 / 2\<rparr>"
  let ?bx = "- 3 / 4 :: real"
  let ?by = "1 - ln (2 * pi) + ln (1 / 3) / 2 - 2 * ln ((38 / 3) / 2) :: real"
  let ?ay = "(1 / 2 - ln (2 * pi) / 2 + ln (1 / 2) / 2 - 3 * ln (10 / 2) / 2)
              + (1 / 2 - ln (2 * pi) / 2 + ln (1 / 2) / 2) - 3 / 4 :: real"
  have n: "SNPNum small = 2" "TotalNum small = 3" "length (dataset small) = 3"
    by (simp_all add: small_def TotalNum_def)
  have r02: "[0..<2] = [0, 1]" "[2..<3] = [2]" by (simp_all add: upt_rec)
  have g: "GeneData small ! 0 = [str 1, str 2]" by (simp add: GeneData_small)
  have p: "PhenoData small ! 0 = [0, 4]" by (simp add: PhenoData_small)
  have loop: "retry_loop [0, 1, 2] (draws ?rd) = Inr (0, 2, [2, 1, 2])"
    using retry_loop_to_trait by (simp del: retry_loop.simps)
  have c0: "calcProb (\<lambda>v. v) small [] [] = Inr 0" by (simp add: calcProb_def ZERO_def)
  have l2: "ln (1 / 2 :: real) = - ln 2" "ln (1 / 3 :: real) = - ln 3"
    "ln (10 / 2 :: real) = ln 5" "ln (38 / 3 / 2 :: real) = ln 19 - ln 3"
    by (simp_all add: ln_div)
  have l15: "ln 3 + ln 5 = ln (15 :: real)"
    using ln_mult [of "3 :: real" 5] by simp
  have l19: "ln (15 :: real) \<le> ln 19" "0 \<le> ln (19 :: real)" by simp_all
  have e: "0 \<le> 2 * ln 19 - 3 * ln 3 / 2 - 3 * ln (5 :: real) / 2"
    using l15 l19 by linarith
  have l0: "0 \<le> ln (2 :: real)" by simp
  have dec: "ln (1 / 2 :: real) \<le> min 0 ((0 + ?ay) - (?bx + ?by))"
    unfolding l2 min_def using e l0 by (auto simp: algebra_simps)
  have it: "iteration (\<lambda>v. v) small [0, 1, 2] ?rd
      = Inr (if ln (unif ?rd) \<le> min 0 ((0 + ?ay) - (?bx + ?by)) then [2, 1, 2] else [0, 1, 2])"
    by (rule metropolis_acceptance [OF loop])
       (simp_all add: n r02 g p calcProb_small_before_x calcProb_small_before_y c0
          calcProb_small_after_y)
  have "iteration (\<lambda>v. v) small [0, 1, 2] ?rd = Inr [2, 1, 2]"
    unfolding it using dec by simp
  with retry_loop_to_trait calcProb_small_before_x calcProb_small_before_y c0 calcProb_small_after_y
  show ?thesis by (simp only: simp_thms)
qed

text \<open>
  Claim C5 as stated fails: \<^verbatim>\<open>np.random.choice(Ix, 2, False)\<close> samples positions
  of the array, not distinct label values. On \<open>[1, 1, 2]\<close> the positions 0 and 1 give
  \<open>x = y = 1\<close>; on \<open>[1, 1, 2, 3]\<close> the pair of labels 2 and 3 comes from 2 of the 12
  outcomes and the pair 1 and 2 from 4 of them.
\<close>

theorem draw_same_label_counterexample:
  "draw_xy [1, 1, 2] 0 1 = Inr (1, 1)
   \<and> length (filter (\<lambda>(p, q). draw_xy [1, 1, 2, 3] p q = Inr (2, 3)) (position_pairs 4)) = 2
   \<and> length (filter (\<lambda>(p, q). draw_xy [1, 1, 2, 3] p q = Inr (1, 2)) (position_pairs 4)) = 4
   \<and> length (position_pairs 4) = 12"
proof -
  have l: "length [1, 1, 2, 3 :: int] = 4" by simp
  have a: "draw_xy [1, 1, 2] 0 1 = Inr (1, 1)"
    by (simp add: draw_xy_def choice2_def)
  have b: "length (filter (\<lambda>(p, q). draw_xy [1, 1, 2, 3] p q = Inr (2, 3)) (position_pairs 4)) = 2"
    using count_draws [of "[1, 1, 2, 3]" 2 3] unfolding l by simp
  have c: "length (filter (\<lambda>(p, q). draw_xy [1, 1, 2, 3] p q = Inr (1, 2)) (position_pairs 4)) = 4"
    using count_draws [of "[1, 1, 2, 3]" 1 2] unfolding l by simp
  have d: "length (position_pairs 4) = 12"
    by (simp add: length_position_pairs)
  from a b c d show ?thesis by (simp only: simp_thms)
qed

text \<open>
  Claim C5, amended. The two labels are those at two distinct positions drawn uniformly
  without replacement from the positions of the assignment, sorted: of the
  \<open>n * (n - 1)\<close> equally likely ordered pairs of positions, \<open>2 * c a * c b\<close> give the
  labels \<open>a < b\<close> and \<open>c a * (c a - 1)\<close> give the label \<open>a\<close> twice, where \<open>c\<close> counts
  the bearers of a label.
\<close>

theorem draw_by_position:
  "length (position_pairs (length Ix)) = length Ix * (length Ix - 1)
   \<and> length (filter (\<lambda>(p, q). draw_xy Ix p q = Inr (a, b)) (position_pairs (length Ix)))
     = (if a < b then 2 * count_list Ix a * count_list Ix b
        else if a = b then count_list Ix a * (count_list Ix a - 1)
        else 0)"
  by (simp only: length_position_pairs count_draws)

text \<open>
  Claim C6 as stated fails in its consequence: from the identity assignment the draw of
  positions 0 and 1 leaves the retry loop at once, although the labels 0 and 1 are both
  singletons of the current assignment.
\<close>

theorem retry_loop_presents_singletons_counterexample:
  "retry_loop [0, 1, 2] [\<lparr>pos1 = 0, pos2 = 1, pick = 0\<rparr>] = Inr (0, 1, [1, 1, 2])
   \<and> count_list [0, 1, 2] (0 :: int) = 1 \<and> count_list [0, 1, 2] (1 :: int) = 1"
  using retry_loop_small by (simp del: retry_loop.simps)

text \<open>
  Claim C6, amended. The retry loop hands over a proposal only when it is not the case
  that \<open>x\<close> has exactly one bearer in the current assignment and \<open>y\<close> exactly one in
  the proposal; and this holds at the first pass for every draw, so the loop body runs
  once and whatever was drawn reaches the scoring step.
\<close>

theorem retry_loop_exits_at_once:
  "(retry_loop Ix dl = Inr (x, y, Iy) \<longrightarrow> \<not> (count_list Ix x = 1 \<and> count_list Iy y = 1))
   \<and> (pos1 d < length Ix \<and> pos2 d < length Ix \<and> pos1 d \<noteq> pos2 d \<longrightarrow>
        (\<exists>x' y' Iy'. attempt Ix d = Inr (x', y', Iy') \<and> retry_loop Ix (d # ds) = Inr (x', y', Iy')))"
proof (intro conjI impI)
  assume "retry_loop Ix dl = Inr (x, y, Iy)"
  from retry_loop_Inr [OF this] obtain d' where "attempt Ix d' = Inr (x, y, Iy)" by blast
  from attempt_exits [OF this] show "\<not> (count_list Ix x = 1 \<and> count_list Iy y = 1)" by blast
next
  assume "pos1 d < length Ix \<and> pos2 d < length Ix \<and> pos1 d \<noteq> pos2 d"
  then obtain x' y' Iy' where a: "attempt Ix d = Inr (x', y', Iy')"
    using attempt_valid [of d Ix] by blast
  from retry_loop_first [OF a] a
  show "\<exists>x' y' Iy'. attempt Ix d = Inr (x', y', Iy') \<and> retry_loop Ix (d # ds) = Inr (x', y', Iy')"
    by blast
qed

theorem retry_loop_exits_at_once_witness:
  "retry_loop [1, 1, 2] [\<lparr>pos1 = 0, pos2 = 2, pick = 1\<rparr>] = Inr (1, 2, [1, 2, 2])
   \<and> count_list [1, 1, 2] (1 :: int) = 2 \<and> count_list [1, 2, 2] (2 :: int) = 2
   \<and> attempt [1, 1, 2] \<lparr>pos1 = 0, pos2 = 2, pick = 1\<rparr> = Inr (1, 2, [1, 2, 2])"
  using retry_loop_exits_at_once [of "[1, 1, 2]" "[\<lparr>pos1 = 0, pos2 = 2, pick = 1\<rparr>]" 1 2 "[1, 2, 2]"
      "\<lparr>pos1 = 0, pos2 = 2, pick = 1\<rparr>" "[]"] retry_loop_pick
  by (auto simp del: retry_loop.simps)

section \<open>Invariants of the assignment\<close>

lemma length_arange [simp]: "length (arange n) = n"
  by (simp add: arange_def)

lemma nth_arange: "i < n \<Longrightarrow> arange n ! i = int i"
  by (simp add: arange_def)

lemma set_arange: "set (arange n) = {v. 0 \<le> v \<and> v < int n}"
proof -
  have "v \<in> int ` {0..<n}" if "0 \<le> v" "v < int n" for v
    using that by (intro image_eqI [where x = "nat v"]) auto
  then show ?thesis by (auto simp: arange_def)
qed

lemma arange_3: "arange 3 = [0, 1, 2]"
  by (simp add: arange_def upt_rec)

lemma run_small:
  "run (\<lambda>v. v) small [\<lparr>draws = [\<lparr>pos1 = 0, pos2 = 1, pick = 0\<rparr>], unif = 1 / 2\<rparr>] = Inr [1, 1, 2]"
proof -
  have n: "iterNum small = 1" "TotalNum small = 3" by (simp_all add: small_def TotalNum_def)
  show ?thesis
    unfolding run_def n arange_3 by (simp add: iteration_small [unfolded One_nat_def])
qed

lemma run_Inr:
  assumes "run lgamma ps rounds = Inr Ix"
  shows "sampler_loop lgamma ps (arange (TotalNum ps)) (take (iterNum ps) rounds) = Inr Ix"
    and "iterNum ps \<le> length rounds"
  using assms by (simp_all add: run_def split: if_splits)

lemma from_arange:
  assumes "sampler_loop lgamma ps (arange n) rounds = Inr Ix"
  shows "length Ix = n" and "\<forall>v \<in> set Ix. 0 \<le> v \<and> v < int n" and "\<forall>i < n. int i \<le> Ix ! i"
proof -
  from sampler_loop_invariant [OF assms]
  have l: "length Ix = n" and s: "set Ix \<subseteq> set (arange n)"
    and m: "\<forall>i < n. arange n ! i \<le> Ix ! i" by simp_all
  show "length Ix = n" by (rule l)
  show "\<forall>v \<in> set Ix. 0 \<le> v \<and> v < int n" using s by (auto simp: set_arange)
  show "\<forall>i < n. int i \<le> Ix ! i" using m by (simp add: nth_arange)
qed

text \<open>
  Claim C9. After any number of iterations from \<^verbatim>\<open>np.arange(TotalNum)\<close>, and so at
  the end of the run, the assignment has \<^verbatim>\<open>TotalNum\<close> entries, each a label from 0 up
  to \<^verbatim>\<open>TotalNum - 1\<close>. The run does return an assignment when the data matrix is
  rectangular with at least \<^verbatim>\<open>TotalNum\<close> rows, the genotype codes are 1, 2 or 3, and
  every iteration has a draw of two distinct positions.
\<close>

theorem assignment_in_range:
  "(sampler_loop lgamma ps (arange (TotalNum ps)) rounds = Inr Ix \<longrightarrow>
      length Ix = TotalNum ps \<and> (\<forall>v \<in> set Ix. 0 \<le> v \<and> v < int (TotalNum ps)))
   \<and> (run lgamma ps rounds = Inr Ix \<longrightarrow>
      length Ix = TotalNum ps \<and> (\<forall>v \<in> set Ix. 0 \<le> v \<and> v < int (TotalNum ps)))
   \<and> (TotalNum ps \<le> length (dataset ps)
      \<and> (\<forall>r \<in> set (dataset ps). length r = m)
      \<and> (\<forall>r \<in> set (take (SNPNum ps) (dataset ps)). \<forall>v \<in> set r. astype_int32 v \<in> {1, 2, 3})
      \<and> iterNum ps \<le> length rounds
      \<and> (\<forall>rd \<in> set rounds. draws rd \<noteq> [] \<and> pos1 (hd (draws rd)) < TotalNum ps
            \<and> pos2 (hd (draws rd)) < TotalNum ps \<and> pos1 (hd (draws rd)) \<noteq> pos2 (hd (draws rd)))
      \<longrightarrow> (\<exists>Ix'. run lgamma ps rounds = Inr Ix'))"
proof (intro conjI impI)
  assume "sampler_loop lgamma ps (arange (TotalNum ps)) rounds = Inr Ix"
  from from_arange(1,2) [OF this]
  show "length Ix = TotalNum ps" "\<forall>v \<in> set Ix. 0 \<le> v \<and> v < int (TotalNum ps)" .
next
  assume "run lgamma ps rounds = Inr Ix"
  from from_arange(1,2) [OF run_Inr(1) [OF this]]
  show "length Ix = TotalNum ps" "\<forall>v \<in> set Ix. 0 \<le> v \<and> v < int (TotalNum ps)" .
next
  assume a: "TotalNum ps \<le> length (dataset ps)
      \<and> (\<forall>r \<in> set (dataset ps). length r = m)
      \<and> (\<forall>r \<in> set (take (SNPNum ps) (dataset ps)). \<forall>v \<in> set r. astype_int32 v \<in> {1, 2, 3})
      \<and> iterNum ps \<le> length rounds
      \<and> (\<forall>rd \<in> set rounds. draws rd \<noteq> [] \<and> pos1 (hd (draws rd)) < TotalNum ps
            \<and> pos2 (hd (draws rd)) < TotalNum ps \<and> pos1 (hd (draws rd)) \<noteq> pos2 (hd (draws rd)))"
  have v: "\<forall>rd \<in> set (take (iterNum ps) rounds). \<exists>d ds. draws rd = d # ds \<and> pos1 d < TotalNum ps
               \<and> pos2 d < TotalNum ps \<and> pos1 d \<noteq> pos2 d"
  proof
    fix rd assume "rd \<in> set (take (iterNum ps) rounds)"
    then have "rd \<in> set rounds" by (rule in_set_takeD)
    with a have "draws rd \<noteq> []" "pos1 (hd (draws rd)) < TotalNum ps"
      "pos2 (hd (draws rd)) < TotalNum ps" "pos1 (hd (draws rd)) \<noteq> pos2 (hd (draws rd))"
      by simp_all
    then show "\<exists>d ds. draws rd = d # ds \<and> pos1 d < TotalNum ps
               \<and> pos2 d < TotalNum ps \<and> pos1 d \<noteq> pos2 d"
      by (cases "draws rd") simp_all
  qed
  from a have "\<exists>Ix'. sampler_loop lgamma ps (arange (TotalNum ps)) (take (iterNum ps) rounds) = Inr Ix'"
    by (intro sampler_loop_ok [where m = m] v) simp_all
  with a show "\<exists>Ix'. run lgamma ps rounds = Inr Ix'" by (simp add: run_def)
qed

theorem assignment_in_range_witness:
  "run (\<lambda>v. v) small [\<lparr>draws = [\<lparr>pos1 = 0, pos2 = 1, pick = 0\<rparr>], unif = 1 / 2\<rparr>] = Inr [1, 1, 2]
   \<and> length [1, 1, 2 :: int] = TotalNum small
   \<and> TotalNum small \<le> length (dataset small)
   \<and> iterNum small \<le> length [\<lparr>draws = [\<lparr>pos1 = 0, pos2 = 1, pick = 0\<rparr>], unif = 1 / 2\<rparr>]
   \<and> (\<exists>Ix'. run (\<lambda>v. v) small
          [\<lparr>draws = [\<lparr>pos1 = 0, pos2 = 1, pick = 0\<rparr>], unif = 1 / 2\<rparr>] = Inr Ix')"
proof -
  have n: "TotalNum small = 3" "SNPNum small = 2" "iterNum small = 1"
    "dataset small = [[1, 2], [2, 2], [0, 4]]"
    by (simp_all add: small_def TotalNum_def)
  show ?thesis
    using assignment_in_range [of "\<lambda>v. v" small
        "[\<lparr>draws = [\<lparr>pos1 = 0, pos2 = 1, pick = 0\<rparr>], unif = 1 / 2\<rparr>]" "[1, 1, 2]" 2] run_small
    by (simp add: n astype_int32_def)
qed

text \<open>
  Claim C10 as stated fails: on \<open>[1, 1, 2]\<close> the positions 0 and 1 bear the same label,
  so \<open>x = y = 1\<close> and the proposal is the current assignment: no position changes and no
  label grows.
\<close>

theorem proposal_without_change_counterexample:
  "retry_loop [1, 1, 2] [\<lparr>pos1 = 0, pos2 = 1, pick = 0\<rparr>] = Inr (1, 1, [1, 1, 2])"
  by (rule retry_loop_duplicate)

text \<open>
  Claim C10, amended. The labels are sorted so that \<open>x \<le> y\<close>, and the proposal is the
  current assignment with one position that bears \<open>x\<close> set to \<open>y\<close>: it differs in at
  most that position, where the label does not decrease. Hence no label decreases over
  the iterations, and from the identity assignment \<open>assignment[i] \<ge> i\<close> holds throughout.
\<close>

theorem labels_never_decrease:
  "(retry_loop Ix dl = Inr (x, y, Iy) \<longrightarrow>
      x \<le> y \<and> (\<exists>k < length Ix. Ix ! k = x \<and> Iy = Ix[k := y]))
   \<and> (sampler_loop lgamma ps Ix rounds = Inr Ix' \<longrightarrow>
      length Ix' = length Ix \<and> (\<forall>i < length Ix. Ix ! i \<le> Ix' ! i))
   \<and> (sampler_loop lgamma ps (arange n) rounds = Inr Ix'' \<longrightarrow> (\<forall>i < n. int i \<le> Ix'' ! i))"
proof (intro conjI impI)
  assume "retry_loop Ix dl = Inr (x, y, Iy)"
  from retry_loop_Inr [OF this] obtain d where "attempt Ix d = Inr (x, y, Iy)" by blast
  from attempt_Inr [OF this] obtain p q k where
    k: "k < length Ix" and x: "x = min (Ix ! p) (Ix ! q)" and y: "y = max (Ix ! p) (Ix ! q)"
    and kx: "Ix ! k = x" and Iy: "Iy = Ix[k := y]"
    by blast
  show "x \<le> y" unfolding x y by (simp add: min_def max_def)
  show "\<exists>k < length Ix. Ix ! k = x \<and> Iy = Ix[k := y]" using k kx Iy by blast
next
  assume "sampler_loop lgamma ps Ix rounds = Inr Ix'"
  from sampler_loop_invariant [OF this]
  show "length Ix' = length Ix" "\<forall>i < length Ix. Ix ! i \<le> Ix' ! i" by simp_all
next
  assume "sampler_loop lgamma ps (arange n) rounds = Inr Ix''"
  from from_arange(3) [OF this] show "\<forall>i < n. int i \<le> Ix'' ! i" .
qed

theorem labels_never_decrease_witness:
  "retry_loop [0, 1, 2] [\<lparr>pos1 = 0, pos2 = 1, pick = 0\<rparr>] = Inr (0, 1, [1, 1, 2])
   \<and> sampler_loop (\<lambda>v. v) small (arange 3)
        [\<lparr>draws = [\<lparr>pos1 = 0, pos2 = 1, pick = 0\<rparr>], unif = 1 / 2\<rparr>] = Inr [1, 1, 2]
   \<and> (0 :: int) \<le> 1 \<and> [1, 1, 2] = [0, 1, 2 :: int][0 := 1]"
  using labels_never_decrease [of "[0, 1, 2]" "[\<lparr>pos1 = 0, pos2 = 1, pick = 0\<rparr>]" 0 1 "[1, 1, 2]"
      "\<lambda>v. v" small "[\<lparr>draws = [\<lparr>pos1 = 0, pos2 = 1, pick = 0\<rparr>], unif = 1 / 2\<rparr>]"
      "[1, 1, 2]" 3 "[1, 1, 2]"]
    retry_loop_small [unfolded One_nat_def] iteration_small [unfolded One_nat_def]
  by (simp add: arange_3 del: retry_loop.simps)

text \<open>Every proposal is committed for some uniform number strictly between 0 and 1.\<close>

lemma iteration_can_commit:
  assumes "retry_loop Ix dl = Inr (x, y, Iy)"
    and "score lgamma ps Ix x y = Inr sb" and "score lgamma ps Iy x y = Inr sa"
  shows "\<exists>u. 0 < u \<and> u < 1 \<and> iteration lgamma ps Ix \<lparr>draws = dl, unif = u\<rparr> = Inr Iy"
proof -
  define u where "u = exp (min 0 (sa - sb) - 1)"
  have l: "ln u = min 0 (sa - sb) - 1" by (simp add: u_def)
  have "0 < u" by (simp add: u_def)
  moreover have "min 0 (sa - sb) - 1 < 0" by linarith
  then have "u < 1" unfolding u_def by (simp only: exp_less_one_iff)
  moreover have "ln u \<le> min 0 (sa - sb)" unfolding l by linarith
  then have "iteration lgamma ps Ix \<lparr>draws = dl, unif = u\<rparr> = Inr Iy"
    using assms \<open>0 < u\<close> by (simp add: iteration_def sess_run_def accept_def ZERO_def)
  ultimately show ?thesis by blast
qed

text \<open>
  The assignment \<open>[1, 1, 2]\<close>, in which label 1 has two bearers, is reached from the
  identity in one iteration on the small data set, whatever \<^verbatim>\<open>tf.lgamma\<close> computes.
\<close>

lemma small_reaches_duplicate:
  "\<exists>u. 0 < u \<and> u < 1
      \<and> iteration lgamma small (arange 3) \<lparr>draws = [\<lparr>pos1 = 0, pos2 = 1, pick = 0\<rparr>], unif = u\<rparr>
        = Inr [1, 1, 2]"
proof -
  have n: "TotalNum small = 3" "SNPNum small = 2" "dataset small = [[1, 2], [2, 2], [0, 4]]"
    by (simp_all add: small_def TotalNum_def)
  have ok: "\<exists>v. score lgamma small index 0 1 = Inr v" if "length index = 3" for index
    by (rule score_ok [where m = 2]) (simp_all add: n that astype_int32_def)
  obtain sb where sb: "score lgamma small [0, 1, 2] 0 1 = Inr sb"
    using ok [of "[0, 1, 2]"] by auto
  obtain sa where sa: "score lgamma small [1, 1, 2] 0 1 = Inr sa"
    using ok [of "[1, 1, 2]"] by auto
  from iteration_can_commit [OF retry_loop_small sb sa] show ?thesis
    by (simp add: arange_3)
qed

end
